theory Spec2Isabelle
  imports Main "HOL-Library.Word" "HOL-Library.Multiset"
begin

section \<open>The token pool manager (auth/token\_manager.js)\<close>

subsection \<open>Data\<close>

text \<open>
  A stored account, as \<^verbatim>\<open>data/accounts.json\<close> holds it. The optional fields are the
  ones the code tests for presence: \<^verbatim>\<open>isExpired\<close> tests \<^verbatim>\<open>timestamp\<close> and \<^verbatim>\<open>expires_in\<close>,
  \<^verbatim>\<open>initialize\<close> tests \<^verbatim>\<open>projectId\<close> and compares \<^verbatim>\<open>enable\<close> with \<^verbatim>\<open>false\<close>. Every other
  field of the JSON object travels in \<open>other_fields\<close>. The access token may be missing
  too (an account that was never refreshed): \<^verbatim>\<open>disableToken\<close> reads it without a test.
\<close>

record cred =
  refresh_token :: string
  access_token :: "string option"
  timestamp :: "int option"
  expires_in :: "int option"
  enable :: "bool option"
  projectId :: "string option"
  other_fields :: "(string \<times> string) list"

text \<open>A pool entry: the account's fields spread into a new object, plus a session id.\<close>

record entry = cred +
  sessionId :: string

record usage =
  requests :: nat
  lastUsed :: "int option"

text \<open>
  The manager's fields, and the accounts file beside them: \<open>fileData = None\<close> is a file that
  cannot be read or parsed (\<^verbatim>\<open>readFileSync\<close> or \<^verbatim>\<open>JSON.parse\<close> throws).
\<close>

record tm =
  tokens :: "entry list"
  currentIndex :: nat
  lastLoadTime :: int
  cachedData :: "cred list option"
  usageStats :: "string \<rightharpoonup> usage"
  fileData :: "cred list option"

text \<open>What the OAuth endpoint answers to a refresh-token grant.\<close>

datatype oauth_response =
  Granted string int
  | Rejected nat string
  | Unreachable string

text \<open>
  What the world supplies during one call: the clock, whether \<^verbatim>\<open>writeFileSync\<close>
  succeeds, the OAuth endpoint's answer for a refresh token, and the two id generators
  of \<^verbatim>\<open>utils/idGenerator.js\<close> (random in the source: here the value drawn at each
  position).
\<close>

record env =
  now :: int
  disk_ok :: bool
  oauth :: "string \<Rightarrow> oauth_response"
  generateProjectId :: "nat \<Rightarrow> string"
  generateSessionId :: "nat \<Rightarrow> string"

text \<open>
  A thrown value: \<^verbatim>\<open>{statusCode, message}\<close> of \<^verbatim>\<open>refreshToken\<close>, or any other error, with its
  message.
\<close>

datatype js_error =
  HttpError nat string
  | PlainError string

fun statusCode :: "js_error \<Rightarrow> nat option" where
  "statusCode (HttpError code msg) = Some code"
| "statusCode (PlainError msg) = None"

fun error_message :: "js_error \<Rightarrow> string" where
  "error_message (HttpError code msg) = msg"
| "error_message (PlainError msg) = msg"

text \<open>
  The message of the TypeError for reading \<^verbatim>\<open>.slice\<close> of a missing access token (the
  engine's wording).
\<close>

definition slice_message :: string where
  "slice_message = ''Cannot read properties of undefined (reading 'slice')''"

subsection \<open>Loading\<close>

text \<open>JavaScript truthiness of an optional string and of an optional number.\<close>

definition falsy_str :: "string option \<Rightarrow> bool" where
  "falsy_str v = (case v of None \<Rightarrow> True | Some x \<Rightarrow> x = [])"

definition falsy_num :: "int option \<Rightarrow> bool" where
  "falsy_num v = (case v of None \<Rightarrow> True | Some x \<Rightarrow> x = 0)"

definition assignProjectIds :: "env \<Rightarrow> cred list \<Rightarrow> cred list" where
  "assignProjectIds e tokenArray =
     map (\<lambda>(i, token).
            if falsy_str (projectId token)
            then token\<lparr>projectId := Some (generateProjectId e i)\<rparr> else token)
         (enumerate 0 tokenArray)"

definition withSessionIds :: "env \<Rightarrow> cred list \<Rightarrow> entry list" where
  "withSessionIds e ts =
     map (\<lambda>(i, token). cred.extend token (entry.fields (generateSessionId e i)))
         (enumerate 0 ts)"

text \<open>
  \<^verbatim>\<open>initialize\<close>: everything happens inside one \<^verbatim>\<open>try\<close>; the \<^verbatim>\<open>catch\<close> empties the pool
  and touches nothing else. The first write to a field of the manager comes after the
  last statement that can throw.
\<close>

definition initialize :: "env \<Rightarrow> tm \<Rightarrow> tm" where
  "initialize e s =
     (case fileData s of
        None \<Rightarrow> s\<lparr>tokens := []\<rparr>
      | Some data \<Rightarrow>
          (let needSave = list_ex (\<lambda>token. falsy_str (projectId token)) data;
               tokenArray = assignProjectIds e data
           in if needSave \<and> \<not> disk_ok e then s\<lparr>tokens := []\<rparr>
              else s\<lparr>fileData := (if needSave then Some tokenArray else fileData s),
                     cachedData := Some tokenArray,
                     tokens := withSessionIds e
                                 (filter (\<lambda>token. enable token \<noteq> Some False) tokenArray),
                     currentIndex := 0,
                     lastLoadTime := now e\<rparr>))"

definition loadInterval :: int where
  "loadInterval = 60000"

definition loadTokens :: "env \<Rightarrow> tm \<Rightarrow> tm" where
  "loadTokens e s =
     (if now e - lastLoadTime s < loadInterval \<and> tokens s \<noteq> [] then s
      else initialize e s)"


subsection \<open>Expiry, saving, refreshing, disabling\<close>

definition isExpired :: "env \<Rightarrow> entry \<Rightarrow> bool" where
  "isExpired e token =
     (if falsy_num (timestamp token) \<or> falsy_num (expires_in token) then True
      else now e \<ge> the (timestamp token) + the (expires_in token) * 1000 - 300000)"

fun findIndex :: "('a \<Rightarrow> bool) \<Rightarrow> 'a list \<Rightarrow> nat option" where
  "findIndex P [] = None"
| "findIndex P (x # xs) = (if P x then Some 0 else map_option Suc (findIndex P xs))"

text \<open>The body of the \<^verbatim>\<open>forEach\<close> of \<^verbatim>\<open>saveToFile\<close>, on the array being saved.\<close>

definition save_one :: "cred list \<Rightarrow> entry \<Rightarrow> cred list" where
  "save_one allTokens memToken =
     (case findIndex (\<lambda>t. refresh_token t = refresh_token memToken) allTokens of
        None \<Rightarrow> allTokens
      | Some index \<Rightarrow> allTokens[index := cred.truncate memToken])"

text \<open>
  \<^verbatim>\<open>saveToFile\<close> catches every error. When the cache is there, \<^verbatim>\<open>allTokens\<close> is the cached
  array itself, so the \<^verbatim>\<open>forEach\<close> has already changed the cache when the write throws.
\<close>

definition saveToFile :: "env \<Rightarrow> tm \<Rightarrow> tm" where
  "saveToFile e s =
     (case (case cachedData s of Some c \<Rightarrow> Some c | None \<Rightarrow> fileData s) of
        None \<Rightarrow> s
      | Some allTokens0 \<Rightarrow>
          (let allTokens = foldl save_one allTokens0 (tokens s)
           in if disk_ok e then s\<lparr>fileData := Some allTokens, cachedData := Some allTokens\<rparr>
              else (case cachedData s of
                      None \<Rightarrow> s
                    | Some c \<Rightarrow> s\<lparr>cachedData := Some allTokens\<rparr>)))"

text \<open>
  \<^verbatim>\<open>refreshToken(token)\<close>, the token being the pool entry at index \<open>i\<close> (every caller
  passes an entry of the pool): it is updated in place, then the pool is saved.
\<close>

definition refreshToken :: "env \<Rightarrow> nat \<Rightarrow> tm \<Rightarrow> js_error + tm" where
  "refreshToken e i s =
     (case oauth e (refresh_token (tokens s ! i)) of
        Granted tok ttl \<Rightarrow>
          Inr (saveToFile e
                 (s\<lparr>tokens := (tokens s)[i := (tokens s ! i)
                       \<lparr>access_token := Some tok, timestamp := Some (now e),
                        expires_in := Some ttl\<rparr>]\<rparr>))
      | Rejected code body \<Rightarrow> Inl (HttpError code body)
      | Unreachable msg \<Rightarrow> Inl (PlainError msg))"

text \<open>
  \<^verbatim>\<open>disableToken(token)\<close>, the token being the pool entry at index \<open>i\<close>. Its first
  statement logs \<^verbatim>\<open>token.access_token.slice(-8)\<close>: with no access token this throws a
  TypeError, before anything is changed.
\<close>

definition disableToken :: "env \<Rightarrow> nat \<Rightarrow> tm \<Rightarrow> js_error + tm" where
  "disableToken e i s =
     (case access_token (tokens s ! i) of
        None \<Rightarrow> Inl (PlainError slice_message)
      | Some a \<Rightarrow>
          (let token = (tokens s ! i)\<lparr>enable := Some False\<rparr>;
               s1 = saveToFile e (s\<lparr>tokens := (tokens s)[i := token]\<rparr>);
               remaining = filter (\<lambda>t. refresh_token t \<noteq> refresh_token token) (tokens s1)
           in Inr (s1\<lparr>tokens := remaining,
                      currentIndex := currentIndex s1 mod max (length remaining) 1\<rparr>)))"

definition recordUsage :: "env \<Rightarrow> entry \<Rightarrow> tm \<Rightarrow> tm" where
  "recordUsage e token s =
     (let key = refresh_token token;
          stats = (case usageStats s key of
                     None \<Rightarrow> \<lparr>requests = 0, lastUsed = None\<rparr>
                   | Some u \<Rightarrow> u)
      in s\<lparr>usageStats := (usageStats s)
              (key \<mapsto> stats\<lparr>requests := requests stats + 1, lastUsed := Some (now e)\<rparr>)\<rparr>)"

subsection \<open>getToken\<close>

text \<open>
  The \<^verbatim>\<open>try\<close> block of the loop body: it returns the token, or throws. Reading
  \<^verbatim>\<open>this.tokens[this.currentIndex]\<close> out of range gives \<^verbatim>\<open>undefined\<close>, and
  \<^verbatim>\<open>isExpired\<close> then throws a TypeError (no status code).
\<close>

definition try_token :: "env \<Rightarrow> tm \<Rightarrow> js_error + (entry \<times> tm)" where
  "try_token e s =
     (let i = currentIndex s in
      if \<not> i < length (tokens s) then Inl (PlainError ''TypeError'')
      else
        (case (if isExpired e (tokens s ! i) then refreshToken e i s else Inr s) of
           Inl err \<Rightarrow> Inl err
         | Inr s1 \<Rightarrow>
             (let token = tokens s1 ! i;
                  s2 = s1\<lparr>currentIndex := (currentIndex s1 + 1) mod length (tokens s1)\<rparr>
              in Inr (token, recordUsage e token s2))))"

text \<open>
  The \<^verbatim>\<open>for\<close> loop, \<open>n\<close> iterations left. The result is what the call returns
  (\<open>Inr\<close>: a credential or \<^verbatim>\<open>null\<close>) or what it throws (\<open>Inl\<close>), with the manager as it
  is then. \<^verbatim>\<open>disableToken\<close> is called in the \<^verbatim>\<open>catch\<close>, so what it throws leaves
  \<^verbatim>\<open>getToken\<close>. The loop is entered with a pool that is not empty and goes round again
  only with one that is not empty, so the \<^verbatim>\<open>%\<close> of the \<^verbatim>\<open>catch\<close> never divides by zero.
\<close>

fun getToken_loop :: "env \<Rightarrow> nat \<Rightarrow> tm \<Rightarrow> (js_error + entry option) \<times> tm" where
  "getToken_loop e 0 s = (Inr None, s)"
| "getToken_loop e (Suc n) s =
     (case try_token e s of
        Inr (token, s1) \<Rightarrow> (Inr (Some token), s1)
      | Inl err \<Rightarrow>
          if statusCode err = Some 403 \<or> statusCode err = Some 400 then
            (case disableToken e (currentIndex s) s of
               Inl thrown \<Rightarrow> (Inl thrown, s)
             | Inr s1 \<Rightarrow>
                 if tokens s1 = [] then (Inr None, s1) else getToken_loop e n s1)
          else
            getToken_loop e n
              (s\<lparr>currentIndex := (currentIndex s + 1) mod length (tokens s)\<rparr>))"

definition getToken :: "env \<Rightarrow> tm \<Rightarrow> (js_error + entry option) \<times> tm" where
  "getToken e s =
     (let s1 = loadTokens e s in
      if tokens s1 = [] then (Inr None, s1)
      else getToken_loop e (length (tokens s1)) s1)"

text \<open>
  The iterations a call goes through: for each, the number of iterations left after it
  and the manager at its head.
\<close>

fun loop_heads :: "env \<Rightarrow> nat \<Rightarrow> tm \<Rightarrow> (nat \<times> tm) list" where
  "loop_heads e 0 s = []"
| "loop_heads e (Suc n) s =
     (n, s) #
     (case try_token e s of
        Inr r \<Rightarrow> []
      | Inl err \<Rightarrow>
          if statusCode err = Some 403 \<or> statusCode err = Some 400 then
            (case disableToken e (currentIndex s) s of
               Inl thrown \<Rightarrow> []
             | Inr s1 \<Rightarrow> if tokens s1 = [] then [] else loop_heads e n s1)
          else
            loop_heads e n
              (s\<lparr>currentIndex := (currentIndex s + 1) mod length (tokens s)\<rparr>))"

definition iterations :: "env \<Rightarrow> tm \<Rightarrow> (nat \<times> tm) list" where
  "iterations e s =
     (let s1 = loadTokens e s in
      if tokens s1 = [] then [] else loop_heads e (length (tokens s1)) s1)"

subsection \<open>Errors of a request\<close>


definition handleRequestError ::
  "env \<Rightarrow> js_error \<Rightarrow> string option \<Rightarrow> tm \<Rightarrow> (js_error + entry option) \<times> tm" where
  "handleRequestError e error currentAccessToken s =
     (if statusCode error = Some 403 then
        (let i = currentIndex s in
         if i < length (tokens s) \<and> access_token (tokens s ! i) = currentAccessToken then
           (case refreshToken e i s of
              Inr s1 \<Rightarrow> (Inr (Some (tokens s1 ! i)), s1)
            | Inl refreshError \<Rightarrow>
                if statusCode refreshError = Some 403
                then (case disableToken e i s of
                        Inl thrown \<Rightarrow> (Inl thrown, s)
                      | Inr s1 \<Rightarrow> getToken e s1)
                else getToken e s)
         else getToken e s)
      else (Inr None, s))"

subsection \<open>Consecutive calls, and what the properties speak of\<close>

text \<open>Consecutive \<^verbatim>\<open>getToken()\<close> calls of one caller, each in the world of its moment.\<close>

fun getTokens :: "env list \<Rightarrow> tm \<Rightarrow> (js_error + entry option) list \<times> tm" where
  "getTokens [] s = ([], s)"
| "getTokens (e # es) s =
     (case getToken e s of (r, s1) \<Rightarrow>
        (case getTokens es s1 of (rs, s2) \<Rightarrow> (r # rs, s2)))"

definition pool_inv :: "tm \<Rightarrow> bool" where
  "pool_inv s = (tokens s \<noteq> [] \<longrightarrow> currentIndex s < length (tokens s))"

text \<open>
  What the \<^verbatim>\<open>catch\<close> of \<^verbatim>\<open>getToken\<close> treats as a permanent rejection of the account with
  refresh token \<open>r\<close>: the endpoint answers 403 or 400. And a refresh that fails at all.
\<close>

definition permanently_rejected :: "env \<Rightarrow> string \<Rightarrow> bool" where
  "permanently_rejected e r =
     (case oauth e r of Rejected code body \<Rightarrow> code = 403 \<or> code = 400 | _ \<Rightarrow> False)"

definition refresh_fails :: "env \<Rightarrow> string \<Rightarrow> bool" where
  "refresh_fails e r = (case oauth e r of Granted tok ttl \<Rightarrow> False | _ \<Rightarrow> True)"

text \<open>
  The manager agrees with the store \<open>cs\<close>: the cache and the file both hold \<open>cs\<close>, refresh
  tokens are unique in the store and in the pool, and every pool entry, its session id
  apart, is a record of the store.
\<close>

definition in_sync :: "cred list \<Rightarrow> tm \<Rightarrow> bool" where
  "in_sync cs s =
     (cachedData s = Some cs \<and> fileData s = Some cs \<and>
      distinct (map refresh_token cs) \<and> distinct (map refresh_token (tokens s)) \<and>
      list_all (\<lambda>m. cred.truncate m \<in> set cs) (tokens s))"

text \<open>
  The account with refresh token \<open>r\<close> is recorded as disabled in \<open>cs\<close>: it is there, and
  every record that carries \<open>r\<close> has \<^verbatim>\<open>enable: false\<close>.
\<close>

definition disabled_in :: "string \<Rightarrow> cred list \<Rightarrow> bool" where
  "disabled_in r cs =
     (list_ex (\<lambda>x. refresh_token x = r) cs \<and>
      list_all (\<lambda>x. refresh_token x \<noteq> r \<or> enable x = Some False) cs)"

text \<open>
  The account with refresh token \<open>r\<close> is retired: no pool entry carries \<open>r\<close>, and the
  cache and the file both record it as disabled.
\<close>

definition retired :: "string \<Rightarrow> tm \<Rightarrow> bool" where
  "retired r s =
     (r \<notin> refresh_token ` set (tokens s) \<and>
      (case cachedData s of None \<Rightarrow> False | Some cs \<Rightarrow> disabled_in r cs) \<and>
      (case fileData s of None \<Rightarrow> False | Some cs \<Rightarrow> disabled_in r cs))"

subsection \<open>Sample accounts, pools and worlds\<close>

definition acct :: "string \<Rightarrow> string \<Rightarrow> int option \<Rightarrow> cred" where
  "acct r a ts =
     \<lparr>refresh_token = r, access_token = Some a, timestamp = ts, expires_in = Some 3600,
      enable = None, projectId = Some ''proj'', other_fields = []\<rparr>"

definition pooled :: "cred \<Rightarrow> entry" where
  "pooled c = cred.extend c (entry.fields ''sess'')"

definition accounts3 :: "cred list" where
  "accounts3 = [acct ''rA'' ''aA'' (Some 1), acct ''rB'' ''aB'' (Some 1),
                acct ''rC'' ''aC'' (Some 1)]"

text \<open>
  A world at time \<open>t\<close> whose OAuth endpoint answers every refresh-token grant with
  \<open>reply\<close>, and whose disk can be written when \<open>w\<close>.
\<close>

definition world :: "int \<Rightarrow> bool \<Rightarrow> oauth_response \<Rightarrow> env" where
  "world t w reply =
     \<lparr>now = t, disk_ok = w, oauth = (\<lambda>r. reply),
      generateProjectId = (\<lambda>i. ''proj''), generateSessionId = (\<lambda>i. ''sess'')\<rparr>"

text \<open>A manager holding \<open>cs\<close> (as loaded at time 0), the cursor at \<open>c\<close>.\<close>

definition manager :: "cred list \<Rightarrow> nat \<Rightarrow> tm" where
  "manager cs c =
     \<lparr>tokens = map pooled cs, currentIndex = c, lastLoadTime = 0, cachedData = Some cs,
      usageStats = Map.empty, fileData = Some cs\<rparr>"

text \<open>
  An account that was never refreshed: a refresh token and nothing else, so always
  expired.
\<close>

definition bare_acct :: "string \<Rightarrow> cred" where
  "bare_acct r =
     \<lparr>refresh_token = r, access_token = None, timestamp = None, expires_in = None,
      enable = None, projectId = Some ''proj'', other_fields = []\<rparr>"

text \<open>
  A world at time \<open>t\<close> with a disk that can be written, whose OAuth endpoint answers by
  the refresh token: \<open>replies\<close> where it lists the token, a network failure elsewhere.
\<close>

definition world_of :: "int \<Rightarrow> (string \<times> oauth_response) list \<Rightarrow> env" where
  "world_of t replies =
     \<lparr>now = t, disk_ok = True,
      oauth = (\<lambda>r. case map_of replies r of None \<Rightarrow> Unreachable [] | Some reply \<Rightarrow> reply),
      generateProjectId = (\<lambda>i. ''proj''), generateSessionId = (\<lambda>i. ''sess'')\<rparr>"

text \<open>Three accounts, the first with no timestamp, so always expired.\<close>

definition accounts_stale :: "cred list" where
  "accounts_stale = [acct ''rA'' ''aA'' None, acct ''rB'' ''aB'' (Some 1),
                     acct ''rC'' ''aC'' (Some 1)]"

text \<open>Three accounts, the first two with no timestamp, so always expired.\<close>

definition accounts_two_stale :: "cred list" where
  "accounts_two_stale = [acct ''rA'' ''aA'' None, acct ''rB'' ''aB'' None,
                         acct ''rC'' ''aC'' (Some 1)]"

section \<open>The chat completions endpoint (server/index.js)\<close>

subsection \<open>Strings, requests, responses\<close>

text \<open>
  A JavaScript string is a sequence of UTF-16 code units, and \<^verbatim>\<open>length\<close> counts them.
\<close>

type_synonym jstring = "16 word list"

definition ascii :: "string \<Rightarrow> jstring" where
  "ascii s = map (\<lambda>c. of_nat (of_char c)) s"

definition startsWith :: "jstring \<Rightarrow> jstring \<Rightarrow> bool" where
  "startsWith s p = (take (length p) s = p)"

fun includes_str :: "jstring \<Rightarrow> jstring \<Rightarrow> bool" where
  "includes_str [] p = (p = [])"
| "includes_str (c # cs) p = (startsWith (c # cs) p \<or> includes_str cs p)"

text \<open>The literals of the handler that are not ASCII, by their code units.\<close>

definition fake_prefix :: jstring where
  "fake_prefix = [0x5047, 0x6D41, 0x5F0F, 0x2F]"

definition no_token_message :: jstring where
  "no_token_message =
     [0x6CA1, 0x6709, 0x53EF, 0x7528, 0x7684, 0x74, 0x6F, 0x6B, 0x65, 0x6E, 0xFF0C, 0x8BF7,
      0x8FD0, 0x884C, 0x20, 0x6E, 0x70, 0x6D, 0x20, 0x72, 0x75, 0x6E, 0x20, 0x6C, 0x6F, 0x67,
      0x69, 0x6E, 0x20, 0x83B7, 0x53D6, 0x74, 0x6F, 0x6B, 0x65, 0x6E]"

definition error_prefix :: jstring where
  "error_prefix = [0x9519, 0x8BEF, 0x3A, 0x20]"

text \<open>
  The message of the TypeError that \<^verbatim>\<open>actualModel.includes\<close> throws when the body has no
  \<^verbatim>\<open>model\<close> (the engine's wording).
\<close>

definition undefined_model_message :: jstring where
  "undefined_model_message = ascii ''Cannot read properties of undefined (reading 'includes')''"

text \<open>
  The content of a message: a string, an array of parts (multimodal), or none. A request
  body: \<^verbatim>\<open>messages\<close>, \<^verbatim>\<open>model\<close> and \<^verbatim>\<open>stream\<close>, each of which may be missing. (\<^verbatim>\<open>tools\<close>, the
  other parameters and the caller's key only go into the upstream request body.)
\<close>

datatype content = NoContent | Text jstring | Parts "jstring list"

record message =
  role :: jstring
  content :: content

record request =
  messages :: "message list option"
  model :: "jstring option"
  stream :: "bool option"

datatype toolcall = ToolCall jstring

datatype finish_reason = Stop | ToolCalls

text \<open>
  The \<^verbatim>\<open>delta\<close> of a chunk: the role announcement \<^verbatim>\<open>{role: 'assistant', content: ''}\<close>, a
  content delta (the heartbeat is the content delta of the empty string), a tool-calls
  delta, or the empty delta of the finish chunk.
\<close>

datatype delta = RoleDelta | ContentDelta jstring | ToolCallsDelta "toolcall list" | NoDelta

datatype json_body =
  MessagesRequired
  | ErrorBody jstring
  | Completion "jstring option" jstring "toolcall list option" finish_reason

text \<open>
  What goes over the wire: an SSE chunk (its model, delta and finish reason; \<^verbatim>\<open>id\<close> and
  \<^verbatim>\<open>created\<close> only carry the time), the terminator \<^verbatim>\<open>data: [DONE]\<close>, or a JSON body.
\<close>

datatype wire = Chunk "jstring option" delta "finish_reason option" | Terminator | Json json_body

text \<open>
  The response object of one request, with the heartbeat interval of the fake-streaming
  branch (\<open>interval\<close>: set and not cleared).
\<close>

record response =
  status :: nat
  headers :: "(string \<times> string) list"
  headersSent :: bool
  sent :: "wire list"
  writableEnded :: bool
  interval :: bool

definition fresh_response :: response where
  "fresh_response =
     \<lparr>status = 200, headers = [], headersSent = False, sent = [], writableEnded = False,
      interval = False\<rparr>"

definition setHeader :: "string \<Rightarrow> string \<Rightarrow> response \<Rightarrow> response" where
  "setHeader k v res = res\<lparr>headers := (k, v) # filter (\<lambda>h. fst h \<noteq> k) (headers res)\<rparr>"

definition flushHeaders :: "response \<Rightarrow> response" where
  "flushHeaders res = res\<lparr>headersSent := True\<rparr>"

text \<open>The first \<^verbatim>\<open>write\<close> sends the headers.\<close>

definition res_write :: "wire \<Rightarrow> response \<Rightarrow> response" where
  "res_write w res = res\<lparr>headersSent := True, sent := sent res @ [w]\<rparr>"

definition res_end :: "response \<Rightarrow> response" where
  "res_end res = res\<lparr>headersSent := True, writableEnded := True\<rparr>"

text \<open>
  \<^verbatim>\<open>res.status(code).json(body)\<close>; \<^verbatim>\<open>json\<close> sets the content type when none is set.
\<close>

definition res_json :: "nat \<Rightarrow> json_body \<Rightarrow> response \<Rightarrow> response" where
  "res_json code body res =
     (let res1 = res\<lparr>status := code\<rparr>;
          res2 = (if map_of (headers res1) ''Content-Type'' = None
                  then setHeader ''Content-Type'' ''application/json; charset=utf-8'' res1
                  else res1)
      in res_end (res_write (Json body) res2))"

definition sse_headers :: "response \<Rightarrow> response" where
  "sse_headers res =
     setHeader ''Connection'' ''keep-alive''
       (setHeader ''Cache-Control'' ''no-cache''
          (setHeader ''Content-Type'' ''text/event-stream'' res))"

subsection \<open>The upstream requester\<close>

text \<open>
  \<^verbatim>\<open>api/client.js\<close> is taken by what it answers. The blocking call returns
  \<^verbatim>\<open>{content, toolCalls}\<close> or throws; the streaming call hands fragments to the callback,
  then returns or throws. Building the request body (\<^verbatim>\<open>generateRequestBody\<close> and the image
  configuration after it) may throw. \<open>blocking_ms\<close> is how long the blocking call takes.
\<close>

datatype blocking_reply = Reply jstring "toolcall list" | Failure jstring

datatype fragment = ContentFragment jstring | ToolCallsFragment "toolcall list"

record upstream =
  request_error :: "jstring option"
  blocking :: blocking_reply
  blocking_ms :: nat
  fragments :: "fragment list"
  stream_failure :: "jstring option"

subsection \<open>Fake streaming\<close>

definition heartbeat :: "jstring option \<Rightarrow> wire" where
  "heartbeat m = Chunk m (ContentDelta []) None"

definition sendEmptyChunk :: "jstring option \<Rightarrow> response \<Rightarrow> response" where
  "sendEmptyChunk m res = (if \<not> writableEnded res then res_write (heartbeat m) res else res)"

text \<open>The interval's callback runs only while the interval is set.\<close>

definition timer_fires :: "jstring option \<Rightarrow> response \<Rightarrow> response" where
  "timer_fires m res = (if interval res then sendEmptyChunk m res else res)"

text \<open>
  \<^verbatim>\<open>setInterval(sendEmptyChunk, 3000)\<close>: the callback runs 3000 ms, 6000 ms, ... after the
  interval is set. A call that settles \<open>d\<close> ms after that resumes the handler after the
  firings due by then: the multiples of 3000 up to \<open>d\<close>.
\<close>

definition heartbeat_period :: nat where
  "heartbeat_period = 3000"

definition firings_before :: "nat \<Rightarrow> nat" where
  "firings_before d = d div heartbeat_period"

definition fake_streaming :: "upstream \<Rightarrow> jstring \<Rightarrow> response \<Rightarrow> response" where
  "fake_streaming u actualModel res0 =
     (let m = Some actualModel;
          res1 = flushHeaders
                   (setHeader ''X-Accel-Buffering'' ''no'' (sse_headers res0));
          res2 = res_write (Chunk m RoleDelta None) res1;
          res3 = res2\<lparr>interval := True\<rparr>;
          res4 = (timer_fires m ^^ firings_before (blocking_ms u)) res3
      in case blocking u of
           Reply text toolCalls \<Rightarrow>
             (let res5 = res4\<lparr>interval := False\<rparr>;
                  res6 = (if toolCalls \<noteq> []
                          then res_write (Chunk m (ToolCallsDelta toolCalls) None) res5
                          else res5);
                  res7 = (if text \<noteq> []
                          then res_write (Chunk m (ContentDelta text) None) res6
                          else res6);
                  res8 = res_write (Chunk m NoDelta
                                  (Some (if toolCalls \<noteq> [] then ToolCalls else Stop))) res7
              in res_end (res_write Terminator res8))
         | Failure msg \<Rightarrow>
             (let res5 = res4\<lparr>interval := False\<rparr>
              in if \<not> writableEnded res5 then
                   res_end
                     (res_write Terminator
                        (res_write (Chunk m NoDelta (Some Stop))
                           (res_write (Chunk m (ContentDelta (ascii ''Error: '' @ msg)) None)
                              res5)))
                 else res5))"

subsection \<open>The handler\<close>

text \<open>
  How the \<^verbatim>\<open>try\<close> block ends: the handler is done, or an error was thrown, with its
  message, the value of \<^verbatim>\<open>stream\<close> at that moment, and the response as it is then.
\<close>

datatype attempt = Finished response tm | Threw jstring bool response tm

definition fragment_delta :: "fragment \<Rightarrow> delta" where
  "fragment_delta d =
     (case d of ToolCallsFragment tc \<Rightarrow> ToolCallsDelta tc | ContentFragment c \<Rightarrow> ContentDelta c)"

definition is_tool_calls :: "fragment \<Rightarrow> bool" where
  "is_tool_calls d = (case d of ToolCallsFragment tc \<Rightarrow> True | ContentFragment c \<Rightarrow> False)"

definition real_streaming :: "upstream \<Rightarrow> jstring \<Rightarrow> bool \<Rightarrow> response \<Rightarrow> tm \<Rightarrow> attempt" where
  "real_streaming u m isImageModel res0 s =
     (let res1 = sse_headers res0 in
      if isImageModel then
        (case blocking u of
           Failure msg \<Rightarrow> Threw msg True res1 s
         | Reply text toolCalls \<Rightarrow>
             Finished
               (res_end
                  (res_write Terminator
                     (res_write (Chunk (Some m) NoDelta (Some Stop))
                        (res_write (Chunk (Some m) (ContentDelta text) None) res1)))) s)
      else
        (let res2 = foldl (\<lambda>res d. res_write (Chunk (Some m) (fragment_delta d) None) res) res1
                      (fragments u);
             hasToolCall = list_ex is_tool_calls (fragments u)
         in case stream_failure u of
              Some msg \<Rightarrow> Threw msg True res2 s
            | None \<Rightarrow>
                Finished
                  (res_end
                     (res_write Terminator
                        (res_write (Chunk (Some m) NoDelta
                                  (Some (if hasToolCall then ToolCalls else Stop))) res2))) s))"

definition non_streaming :: "upstream \<Rightarrow> jstring \<Rightarrow> response \<Rightarrow> tm \<Rightarrow> attempt" where
  "non_streaming u m res s =
     (case blocking u of
        Failure msg \<Rightarrow> Threw msg False res s
      | Reply text toolCalls \<Rightarrow>
          Finished
            (res_json 200
               (Completion (Some m) text
                  (if toolCalls \<noteq> [] then Some toolCalls else None)
                  (if toolCalls \<noteq> [] then ToolCalls else Stop)) res) s)"

text \<open>\<^verbatim>\<open>messages[0].content && messages[0].content.length < 20\<close>.\<close>

definition short_content :: "content \<Rightarrow> bool" where
  "short_content c =
     (case c of
        NoContent \<Rightarrow> False
      | Text t \<Rightarrow> t \<noteq> [] \<and> length t < 20
      | Parts ps \<Rightarrow> length ps < 20)"

text \<open>
  \<^verbatim>\<open>stream = true\<close> in the destructuring of the body, and the value of \<^verbatim>\<open>stream\<close> after the
  check for a single short message, which overrides it only when the body has no
  \<^verbatim>\<open>stream\<close> field.
\<close>

definition default_stream :: "request \<Rightarrow> bool" where
  "default_stream req = (case stream req of None \<Rightarrow> True | Some b \<Rightarrow> b)"

definition stream_after_check :: "request \<Rightarrow> message list \<Rightarrow> bool" where
  "stream_after_check req msgs =
     (let isSingleShortMessage = (length msgs = 1 \<and> short_content (content (hd msgs)))
      in if isSingleShortMessage \<and> stream req = None then False else default_stream req)"

definition try_block :: "env \<Rightarrow> upstream \<Rightarrow> request \<Rightarrow> tm \<Rightarrow> attempt" where
  "try_block e u req s =
     (let res = fresh_response
      in case messages req of
           None \<Rightarrow> Finished (res_json 400 MessagesRequired res) s
         | Some msgs \<Rightarrow>
             (case getToken e s of
                (Inl thrown, s1) \<Rightarrow>
                  Threw (ascii (error_message thrown)) (default_stream req) res s1
              | (Inr None, s1) \<Rightarrow> Threw no_token_message (default_stream req) res s1
              | (Inr (Some token), s1) \<Rightarrow>
                  (case model req of
                     None \<Rightarrow> Threw undefined_model_message (default_stream req) res s1
                   | Some m \<Rightarrow>
                       (let isFakeStreaming = startsWith m fake_prefix;
                            actualModel = (if isFakeStreaming
                                           then drop (length fake_prefix) m else m);
                            isImageModel = includes_str actualModel (ascii ''-image'');
                            stream1 = stream_after_check req msgs
                        in case request_error u of
                             Some msg \<Rightarrow> Threw msg stream1 res s1
                           | None \<Rightarrow>
                               if isFakeStreaming \<and> stream1
                               then Finished (fake_streaming u actualModel res) s1
                               else if stream1 \<and> \<not> isFakeStreaming
                               then real_streaming u m isImageModel res s1
                               else if \<not> stream1
                               then non_streaming u m res s1
                               else Finished res s1))))"

definition catch_block :: "jstring \<Rightarrow> bool \<Rightarrow> jstring option \<Rightarrow> response \<Rightarrow> response" where
  "catch_block msg stream_now m res =
     (if \<not> headersSent res then
        (if stream_now then
           res_end
             (res_write Terminator
                (res_write (Chunk m NoDelta (Some Stop))
                   (res_write (Chunk m (ContentDelta (error_prefix @ msg)) None)
                      (sse_headers res))))
         else res_json 500 (ErrorBody msg) res)
      else res)"

definition chat_completions :: "env \<Rightarrow> upstream \<Rightarrow> request \<Rightarrow> tm \<Rightarrow> response \<times> tm" where
  "chat_completions e u req s =
     (case try_block e u req s of
        Finished res s1 \<Rightarrow> (res, s1)
      | Threw msg stream_now res s1 \<Rightarrow> (catch_block msg stream_now (model req) res, s1))"

subsection \<open>Sample requests and upstream behaviours\<close>

definition user_says :: "jstring \<Rightarrow> message" where
  "user_says t = \<lparr>role = ascii ''user'', content = Text t\<rparr>"

definition ask :: "jstring \<Rightarrow> jstring \<Rightarrow> bool option \<Rightarrow> request" where
  "ask m t st = \<lparr>messages = Some [user_says t], model = Some m, stream = st\<rparr>"

definition replying :: "blocking_reply \<Rightarrow> nat \<Rightarrow> upstream" where
  "replying r d =
     \<lparr>request_error = None, blocking = r, blocking_ms = d, fragments = [],
      stream_failure = None\<rparr>"

definition streaming :: "fragment list \<Rightarrow> jstring option \<Rightarrow> upstream" where
  "streaming fs err =
     \<lparr>request_error = None, blocking = Reply [] [], blocking_ms = 0, fragments = fs,
      stream_failure = err\<rparr>"

definition gemini :: jstring where
  "gemini = ascii ''gemini-2.0-flash-exp''"

section \<open>Properties of the token pool manager\<close>

lemma saveToFile_keeps [simp]:
  "tokens (saveToFile e s) = tokens s"
  "currentIndex (saveToFile e s) = currentIndex s"
  "lastLoadTime (saveToFile e s) = lastLoadTime s"
  "usageStats (saveToFile e s) = usageStats s"
  by (simp_all add: saveToFile_def Let_def split: option.splits)

lemma refreshToken_keeps:
  assumes "refreshToken e i s = Inr s1"
  shows "length (tokens s1) = length (tokens s)" "currentIndex s1 = currentIndex s"
    "lastLoadTime s1 = lastLoadTime s"
  using assms by (auto simp: refreshToken_def split: oauth_response.splits)

lemma pool_inv_initialize: "pool_inv (initialize e s)"
  by (simp add: initialize_def pool_inv_def Let_def split: option.splits)


lemma pool_inv_loadTokens: "pool_inv s \<Longrightarrow> pool_inv (loadTokens e s)"
  by (simp add: loadTokens_def pool_inv_initialize)

text \<open>What \<^verbatim>\<open>disableToken\<close> leaves when it returns, and when it throws.\<close>

lemma disableToken_Inr:
  assumes "disableToken e i s = Inr s2"
  shows "access_token (tokens s ! i) \<noteq> None"
    and "s2 = (saveToFile e (s\<lparr>tokens := (tokens s)[i := (tokens s ! i)\<lparr>enable := Some False\<rparr>]\<rparr>))
           \<lparr>tokens := filter (\<lambda>t. refresh_token t \<noteq> refresh_token (tokens s ! i))
                        ((tokens s)[i := (tokens s ! i)\<lparr>enable := Some False\<rparr>]),
            currentIndex := currentIndex s mod
              max (length (filter (\<lambda>t. refresh_token t \<noteq> refresh_token (tokens s ! i))
                        ((tokens s)[i := (tokens s ! i)\<lparr>enable := Some False\<rparr>]))) 1\<rparr>"
  using assms by (auto simp: disableToken_def Let_def split: option.splits)

lemma disableToken_returns:
  "access_token (tokens s ! i) \<noteq> None \<Longrightarrow> \<exists>s2. disableToken e i s = Inr s2"
  by (auto simp: disableToken_def Let_def split: option.splits)

lemma disableToken_Inl:
  "disableToken e i s = Inl err \<Longrightarrow>
   access_token (tokens s ! i) = None \<and> err = PlainError slice_message"
  by (auto simp: disableToken_def Let_def split: option.splits)

lemma disableToken_tokens:
  "disableToken e i s = Inr s2 \<Longrightarrow>
   tokens s2 =
     filter (\<lambda>t. refresh_token t \<noteq> refresh_token (tokens s ! i))
       ((tokens s)[i := (tokens s ! i)\<lparr>enable := Some False\<rparr>])"
  by (drule disableToken_Inr(2)) simp

lemma disableToken_cursor:
  "disableToken e i s = Inr s2 \<Longrightarrow>
   currentIndex s2 = currentIndex s mod max (length (tokens s2)) 1"
  by (drule disableToken_Inr(2)) simp

lemma pool_inv_disableToken: "disableToken e i s = Inr s2 \<Longrightarrow> pool_inv s2"
  unfolding pool_inv_def by (frule disableToken_cursor) (simp add: max_def)

lemma try_token_Inr:
  assumes "try_token e s = Inr (t, s1)"
  shows "currentIndex s < length (tokens s1) \<and> tokens s1 ! currentIndex s = t \<and>
         currentIndex s1 = (currentIndex s + 1) mod length (tokens s1) \<and>
         length (tokens s1) = length (tokens s)"
  using assms
  by (auto simp: try_token_def Let_def recordUsage_def split: if_splits sum.splits
      dest: refreshToken_keeps)




text \<open>Every iteration is a point from which the loop goes on to the call's result.\<close>

lemma loop_heads_result:
  "(k, sk) \<in> set (loop_heads e n s) \<Longrightarrow> getToken_loop e n s = getToken_loop e (Suc k) sk"
proof (induction n arbitrary: s)
  case 0
  then show ?case by simp
next
  case (Suc n)
  let ?adv = "s\<lparr>currentIndex := (currentIndex s + 1) mod length (tokens s)\<rparr>"
  show ?case
  proof (cases "try_token e s")
    case (Inr r)
    then have lh: "loop_heads e (Suc n) s = [(n, s)]" by simp
    from Suc.prems[unfolded lh] show ?thesis by simp
  next
    case (Inl err)
    show ?thesis
    proof (cases "statusCode err = Some 403 \<or> statusCode err = Some 400")
      case True
      show ?thesis
      proof (cases "disableToken e (currentIndex s) s")
        case thrown: (Inl x)
        with Inl True have lh: "loop_heads e (Suc n) s = [(n, s)]" by simp
        from Suc.prems[unfolded lh] show ?thesis by simp
      next
        case (Inr s2)
        show ?thesis
        proof (cases "tokens s2 = []")
          case empty: True
          with Inl True Inr have lh: "loop_heads e (Suc n) s = [(n, s)]" by simp
          from Suc.prems[unfolded lh] show ?thesis by simp
        next
          case False
          with Inl True Inr have lh: "loop_heads e (Suc n) s = (n, s) # loop_heads e n s2"
            and lp: "getToken_loop e (Suc n) s = getToken_loop e n s2"
            by simp_all
          from Suc.prems[unfolded lh] have "(k, sk) = (n, s) \<or> (k, sk) \<in> set (loop_heads e n s2)"
            by simp
          then show ?thesis
          proof
            assume "(k, sk) = (n, s)"
            then show ?thesis by simp
          next
            assume "(k, sk) \<in> set (loop_heads e n s2)"
            from Suc.IH[OF this] lp show ?thesis by simp
          qed
        qed
      qed
    next
      case False
      with Inl have lh: "loop_heads e (Suc n) s = (n, s) # loop_heads e n ?adv"
        and lp: "getToken_loop e (Suc n) s = getToken_loop e n ?adv"
        by simp_all
      from Suc.prems[unfolded lh] have "(k, sk) = (n, s) \<or> (k, sk) \<in> set (loop_heads e n ?adv)"
        by simp
      then show ?thesis
      proof
        assume "(k, sk) = (n, s)"
        then show ?thesis by simp
      next
        assume "(k, sk) \<in> set (loop_heads e n ?adv)"
        from Suc.IH[OF this] lp show ?thesis by simp
      qed
    qed
  qed
qed

lemma iterations_result:
  "(k, sk) \<in> set (iterations e s) \<Longrightarrow> getToken e s = getToken_loop e (Suc k) sk"
  by (auto simp: iterations_def getToken_def Let_def split: if_splits
      dest: loop_heads_result)

lemma iterations_first:
  "tokens (loadTokens e s) \<noteq> [] \<Longrightarrow>
   hd (iterations e s) = (length (tokens (loadTokens e s)) - 1, loadTokens e s) \<and>
   iterations e s \<noteq> []"
  by (cases "length (tokens (loadTokens e s))") (auto simp: iterations_def Let_def)

text \<open>The iteration that returns the credential, and the cursor before and after it.\<close>

lemma loop_Some_dispatch:
  "getToken_loop e n s = (Inr (Some t), s') \<Longrightarrow>
   \<exists>k sk. (k, sk) \<in> set (loop_heads e n s) \<and> try_token e sk = Inr (t, s')"
proof (induction n arbitrary: s)
  case 0
  then show ?case by simp
next
  case (Suc n)
  show ?case
  proof (cases "try_token e s")
    case (Inr r)
    obtain t1 s1 where r: "r = (t1, s1)" by (cases r)
    from Suc.prems Inr r have "t1 = t" "s1 = s'" by simp_all
    with Inr r have "try_token e s = Inr (t, s')" by simp
    moreover have "(n, s) \<in> set (loop_heads e (Suc n) s)" by simp
    ultimately show ?thesis by blast
  next
    case (Inl err)
    show ?thesis
    proof (cases "statusCode err = Some 403 \<or> statusCode err = Some 400")
      case True
      show ?thesis
      proof (cases "disableToken e (currentIndex s) s")
        case thrown: (Inl x)
        then show ?thesis using Inl True Suc.prems by simp
      next
        case (Inr s2)
        with Inl True Suc.prems have ne: "tokens s2 \<noteq> []"
          and "getToken_loop e n s2 = (Inr (Some t), s')"
          by (auto split: if_splits)
        from Suc.IH[OF this(2)] obtain k sk where
          "(k, sk) \<in> set (loop_heads e n s2)" "try_token e sk = Inr (t, s')" by blast
        then show ?thesis using Inl True Inr ne by auto
      qed
    next
      case False
      with Inl Suc.prems have
        "getToken_loop e n (s\<lparr>currentIndex := (currentIndex s + 1) mod length (tokens s)\<rparr>)
          = (Inr (Some t), s')" by simp
      from Suc.IH[OF this] obtain k sk where
        "(k, sk) \<in> set (loop_heads e n
            (s\<lparr>currentIndex := (currentIndex s + 1) mod length (tokens s)\<rparr>))"
        "try_token e sk = Inr (t, s')" by blast
      then show ?thesis using Inl False by auto
    qed
  qed
qed

lemma getToken_Some_dispatch:
  assumes "getToken e s = (Inr (Some t), s')"
  shows "\<exists>k sk. (k, sk) \<in> set (iterations e s) \<and> currentIndex sk < length (tokens sk) \<and>
           t = tokens s' ! currentIndex sk \<and>
           currentIndex s' = (currentIndex sk + 1) mod length (tokens sk) \<and>
           length (tokens s') = length (tokens sk)"
proof -
  from assms have ne: "tokens (loadTokens e s) \<noteq> []"
    and "getToken_loop e (length (tokens (loadTokens e s))) (loadTokens e s) = (Inr (Some t), s')"
    by (auto simp: getToken_def Let_def split: if_splits)
  from loop_Some_dispatch[OF this(2)] obtain k sk where
    k: "(k, sk) \<in> set (loop_heads e (length (tokens (loadTokens e s))) (loadTokens e s))"
    and t: "try_token e sk = Inr (t, s')" by blast
  from k ne have "(k, sk) \<in> set (iterations e s)"
    by (simp add: iterations_def Let_def)
  with try_token_Inr[OF t] show ?thesis
    by (intro exI[of _ k] exI[of _ sk]) auto
qed

lemma getToken_Some_cursor:
  "getToken e s = (Inr (Some t), s') \<Longrightarrow>
   \<exists>i<length (tokens s'). tokens s' ! i = t \<and>
      currentIndex s' = (i + 1) mod length (tokens s')"
  by (drule getToken_Some_dispatch) auto





lemma getToken_valid:
  assumes "now e - lastLoadTime s < loadInterval"
    and "currentIndex s < length (tokens s)"
    and "\<not> isExpired e (tokens s ! currentIndex s)"
  shows "getToken e s =
     (Inr (Some (tokens s ! currentIndex s)),
      recordUsage e (tokens s ! currentIndex s)
        (s\<lparr>currentIndex := (currentIndex s + 1) mod length (tokens s)\<rparr>))"
proof -
  from assms(2) obtain n where n: "length (tokens s) = Suc n"
    by (cases "length (tokens s)") auto
  from assms(2) have ne: "tokens s \<noteq> []" by auto
  have "loadTokens e s = s"
    using assms(1) ne by (simp add: loadTokens_def)
  moreover have "try_token e s =
     Inr (tokens s ! currentIndex s,
          recordUsage e (tokens s ! currentIndex s)
            (s\<lparr>currentIndex := (currentIndex s + 1) mod length (tokens s)\<rparr>))"
    using assms(2,3) by (simp add: try_token_def Let_def)
  ultimately show ?thesis
    using ne n by (simp add: getToken_def Let_def)
qed

lemma recordUsage_keeps [simp]:
  "tokens (recordUsage e t s) = tokens s"
  "currentIndex (recordUsage e t s) = currentIndex s"
  "lastLoadTime (recordUsage e t s) = lastLoadTime s"
  by (simp_all add: recordUsage_def Let_def)

lemma getTokens_valid:
  assumes "currentIndex s < length (tokens s)"
    and "\<forall>e\<in>set es. now e - lastLoadTime s < loadInterval \<and>
           (\<forall>t\<in>set (tokens s). \<not> isExpired e t)"
  shows "fst (getTokens es s) =
           map (\<lambda>k. Inr (Some (tokens s ! ((currentIndex s + k) mod length (tokens s)))))
             [0..<length es]"
  using assms
proof (induction es arbitrary: s)
  case Nil
  then show ?case by simp
next
  case (Cons e es)
  let ?c = "currentIndex s" and ?N = "length (tokens s)"
  let ?s1 = "recordUsage e (tokens s ! ?c) (s\<lparr>currentIndex := (?c + 1) mod ?N\<rparr>)"
  have valid: "\<not> isExpired e (tokens s ! ?c)"
    using Cons.prems by simp
  have g: "getToken e s = (Inr (Some (tokens s ! ?c)), ?s1)"
    using getToken_valid[of e s] Cons.prems valid by simp
  have pos: "0 < ?N"
    using Cons.prems(1) by auto
  have c1: "currentIndex ?s1 < length (tokens ?s1)"
    using pos by simp
  have rest: "\<forall>e\<in>set es. now e - lastLoadTime ?s1 < loadInterval \<and>
           (\<forall>t\<in>set (tokens ?s1). \<not> isExpired e t)"
    using Cons.prems(2) by simp
  have ih: "fst (getTokens es ?s1) =
      map (\<lambda>k. Inr (Some (tokens s ! (((?c + 1) mod ?N + k) mod ?N)))) [0..<length es]"
    using Cons.IH[OF c1 rest] by simp
  have shift: "\<And>k. ((?c + 1) mod ?N + k) mod ?N = (?c + Suc k) mod ?N"
    by (simp add: mod_add_left_eq)
  have "fst (getTokens (e # es) s) = Inr (Some (tokens s ! ?c)) # fst (getTokens es ?s1)"
    using g by (simp split: prod.splits)
  also have "\<dots> = Inr (Some (tokens s ! ((?c + 0) mod ?N))) #
      map (\<lambda>k. Inr (Some (tokens s ! ((?c + Suc k) mod ?N)))) [0..<length es]"
    using ih shift Cons.prems(1) by simp
  also have "\<dots> = map (\<lambda>k. Inr (Some (tokens s ! ((?c + k) mod ?N)))) [0..<length (e # es)]"
    by (simp add: map_upt_Suc del: upt_Suc)
  finally show ?case .
qed

lemma ring_rotate:
  assumes "m = length xs"
  shows "map (\<lambda>k. xs ! ((c + k) mod length xs)) [0..<m] = rotate c xs"
  by (rule nth_equalityI) (simp_all add: assms nth_rotate)




lemma mset_rotate1_eq: "mset (rotate1 xs) = mset xs"
  by (cases xs) simp_all

lemma mset_rotate_eq: "mset (rotate n xs) = mset xs"
  by (induction n) (simp_all add: mset_rotate1_eq)

text \<open>
  Claim C5, with the condition the code needs: for a pool of \<open>N\<close> credentials that all stay
  valid, \<open>N\<close> consecutive calls of \<^verbatim>\<open>getToken\<close>, each made less than a minute after the last
  load (so that none of them reloads the pool), return the pool's entries in ring order
  from the cursor: the pool rotated by the cursor, every entry exactly once.
\<close>

theorem ring_order:
  assumes "currentIndex s < length (tokens s)"
    and "length es = length (tokens s)"
    and "\<forall>e\<in>set es. now e - lastLoadTime s < loadInterval \<and>
           (\<forall>t\<in>set (tokens s). \<not> isExpired e t)"
  shows "fst (getTokens es s) = map (Inr \<circ> Some) (rotate (currentIndex s) (tokens s)) \<and>
         mset (fst (getTokens es s)) = mset (map (Inr \<circ> Some) (tokens s)) \<and>
         (\<forall>k<length (tokens s). fst (getTokens es s) ! k =
            Inr (Some (tokens s ! ((currentIndex s + k) mod length (tokens s)))))"
proof -
  have "fst (getTokens es s) =
      map (\<lambda>k. Inr (Some (tokens s ! ((currentIndex s + k) mod length (tokens s)))))
        [0..<length es]"
    using assms(1,3) by (rule getTokens_valid)
  also have "\<dots> = map (Inr \<circ> Some)
        (map (\<lambda>k. tokens s ! ((currentIndex s + k) mod length (tokens s))) [0..<length es])"
    by simp
  also have "\<dots> = map (Inr \<circ> Some) (rotate (currentIndex s) (tokens s))"
    using assms(2) by (simp only: ring_rotate)
  finally have r: "fst (getTokens es s) = map (Inr \<circ> Some) (rotate (currentIndex s) (tokens s))" .
  have "mset (fst (getTokens es s)) = mset (map (Inr \<circ> Some) (tokens s))"
    by (simp add: r mset_rotate_eq)
  moreover have "\<forall>k<length (tokens s). fst (getTokens es s) ! k =
            Inr (Some (tokens s ! ((currentIndex s + k) mod length (tokens s))))"
    by (simp add: r nth_rotate)
  ultimately show ?thesis using r by simp
qed

theorem ring_order_witness:
  "fst (getTokens [world 1000 True (Rejected 403 []), world 2000 True (Rejected 403 []),
                   world 3000 True (Rejected 403 [])] (manager accounts3 1)) =
     [Inr (Some (pooled (acct ''rB'' ''aB'' (Some 1)))),
      Inr (Some (pooled (acct ''rC'' ''aC'' (Some 1)))),
      Inr (Some (pooled (acct ''rA'' ''aA'' (Some 1))))]"
proof -
  let ?es = "[world 1000 True (Rejected 403 []), world 2000 True (Rejected 403 []),
              world 3000 True (Rejected 403 [])]"
  let ?s = "manager accounts3 1"
  have 1: "currentIndex ?s < length (tokens ?s)" by code_simp
  have 2: "length ?es = length (tokens ?s)" by code_simp
  have 3: "\<forall>e\<in>set ?es. now e - lastLoadTime ?s < loadInterval \<and>
           (\<forall>t\<in>set (tokens ?s). \<not> isExpired e t)" by code_simp
  have "fst (getTokens ?es ?s) = map (Inr \<circ> Some) (rotate (currentIndex ?s) (tokens ?s))"
    using ring_order[OF 1 2 3] by blast
  also have "\<dots> = [Inr (Some (pooled (acct ''rB'' ''aB'' (Some 1)))),
      Inr (Some (pooled (acct ''rC'' ''aC'' (Some 1)))),
      Inr (Some (pooled (acct ''rA'' ''aA'' (Some 1))))]"
    by code_simp
  finally show ?thesis .
qed

text \<open>
  Without that condition the claim fails: three valid credentials, the cursor at 1, the
  last load at time 0. The second call comes 60 seconds after the load, reloads the pool
  and resets the cursor to 0: the three calls return B, A, B.
\<close>

theorem ring_order_reload_counterexample:
  "length (tokens (manager accounts3 1)) = 3 \<and>
   list_all (\<lambda>e. list_all (\<lambda>t. \<not> isExpired e t) (tokens (manager accounts3 1)))
     [world 1000 True (Rejected 403 []), world 60000 True (Rejected 403 []),
      world 60001 True (Rejected 403 [])] \<and>
   map (map_sum id (map_option refresh_token))
     (fst (getTokens [world 1000 True (Rejected 403 []), world 60000 True (Rejected 403 []),
                      world 60001 True (Rejected 403 [])] (manager accounts3 1))) =
     [Inr (Some ''rB''), Inr (Some ''rA''), Inr (Some ''rB'')]"
  by code_simp

text \<open>
  Claim C10. After a call of \<^verbatim>\<open>getToken\<close> that returned a credential, the cursor is one
  past it. When the pool then has at least two entries with distinct access tokens, the
  entry at the cursor is another credential, its access token differs from the returned
  one's, and \<^verbatim>\<open>handleRequestError\<close> called for a 403 on the returned access token does
  exactly what \<^verbatim>\<open>getToken\<close> does: no refresh and no disablement of its own. With a single
  entry the cursor is back on the returned credential.
\<close>

theorem cursor_after_getToken:
  assumes "getToken e s = (Inr (Some t), s')"
  shows "(2 \<le> length (tokens s') \<and> distinct (map access_token (tokens s')) \<longrightarrow>
           currentIndex s' < length (tokens s') \<and>
           (\<exists>i<length (tokens s'). tokens s' ! i = t \<and>
              currentIndex s' = (i + 1) mod length (tokens s') \<and> currentIndex s' \<noteq> i) \<and>
           access_token (tokens s' ! currentIndex s') \<noteq> access_token t \<and>
           handleRequestError e' (HttpError 403 msg) (access_token t) s' = getToken e' s') \<and>
         (length (tokens s') = 1 \<longrightarrow> tokens s' ! currentIndex s' = t)"
proof -
  from getToken_Some_cursor[OF assms] obtain i where
    i: "i < length (tokens s')" "tokens s' ! i = t"
      "currentIndex s' = (i + 1) mod length (tokens s')"
    by blast
  let ?n = "length (tokens s')"
  have one: "tokens s' ! currentIndex s' = t" if "?n = 1"
    using that i by simp
  have two: "currentIndex s' < ?n \<and>
           (\<exists>i<?n. tokens s' ! i = t \<and>
              currentIndex s' = (i + 1) mod ?n \<and> currentIndex s' \<noteq> i) \<and>
           access_token (tokens s' ! currentIndex s') \<noteq> access_token t \<and>
           handleRequestError e' (HttpError 403 msg) (access_token t) s' = getToken e' s'"
    if n2: "2 \<le> ?n" and d: "distinct (map access_token (tokens s'))"
  proof -
    have pos: "0 < ?n" using i(1) by auto
    have c: "currentIndex s' < ?n"
      using i(3) pos by simp
    have ne: "currentIndex s' \<noteq> i"
    proof (cases "i + 1 < ?n")
      case True
      then show ?thesis using i(3) by simp
    next
      case False
      then have "i + 1 = ?n" using i(1) by simp
      then show ?thesis using i(3) n2 by simp
    qed
    have "map access_token (tokens s') ! currentIndex s' \<noteq> map access_token (tokens s') ! i"
      using d c i(1) ne by (simp add: nth_eq_iff_index_eq del: nth_map)
    then have a: "access_token (tokens s' ! currentIndex s') \<noteq> access_token t"
      using c i(1,2) by simp
    have "handleRequestError e' (HttpError 403 msg) (access_token t) s' = getToken e' s'"
      using a by (simp add: handleRequestError_def Let_def)
    then show ?thesis using c i ne a by blast
  qed
  show ?thesis using one two by blast
qed

theorem cursor_after_getToken_witness:
  "getToken (world 1000 True (Rejected 403 [])) (manager accounts3 1) =
     (Inr (Some (pooled (acct ''rB'' ''aB'' (Some 1)))),
      snd (getToken (world 1000 True (Rejected 403 [])) (manager accounts3 1))) \<and>
   currentIndex (snd (getToken (world 1000 True (Rejected 403 [])) (manager accounts3 1))) = 2 \<and>
   access_token (tokens (snd (getToken (world 1000 True (Rejected 403 []))
       (manager accounts3 1))) ! 2) \<noteq> Some ''aB'' \<and>
   handleRequestError (world 1001 True (Rejected 403 [])) (HttpError 403 []) (Some ''aB'')
       (snd (getToken (world 1000 True (Rejected 403 [])) (manager accounts3 1))) =
     getToken (world 1001 True (Rejected 403 []))
       (snd (getToken (world 1000 True (Rejected 403 [])) (manager accounts3 1)))"
proof -
  let ?e = "world 1000 True (Rejected 403 [])" and ?s = "manager accounts3 1"
  let ?t = "pooled (acct ''rB'' ''aB'' (Some 1))"
  let ?s' = "snd (getToken ?e ?s)"
  have "fst (getToken ?e ?s) = Inr (Some ?t)" by code_simp
  then have g: "getToken ?e ?s = (Inr (Some ?t), ?s')"
    by (simp add: prod_eq_iff)
  have h: "2 \<le> length (tokens ?s') \<and> distinct (map access_token (tokens ?s'))"
    by code_simp
  have a: "access_token ?t = Some ''aB''" by code_simp
  have c: "currentIndex ?s' = 2" by code_simp
  from cursor_after_getToken[OF g, of "world 1001 True (Rejected 403 [])" "[]"] h
  have "access_token (tokens ?s' ! currentIndex ?s') \<noteq> access_token ?t"
    and "handleRequestError (world 1001 True (Rejected 403 [])) (HttpError 403 [])
           (access_token ?t) ?s' = getToken (world 1001 True (Rejected 403 [])) ?s'"
    by blast+
  then show ?thesis using g a c by simp
qed

lemma try_token_rejected:
  assumes "currentIndex s < length (tokens s)"
    and "isExpired e (tokens s ! currentIndex s)"
    and "oauth e (refresh_token (tokens s ! currentIndex s)) = Rejected code body"
  shows "try_token e s = Inl (HttpError code body)"
  using assms by (simp add: try_token_def refreshToken_def Let_def)

lemma disableToken_subset:
  assumes "i < length (tokens s)" and "disableToken e i s = Inr s2"
  shows "set (tokens s2) \<subseteq> set (tokens s)"
proof
  fix x assume "x \<in> set (tokens s2)"
  then have x: "x \<in> set ((tokens s)[i := (tokens s ! i)\<lparr>enable := Some False\<rparr>])"
    and r: "refresh_token x \<noteq> refresh_token (tokens s ! i)"
    by (simp_all add: disableToken_tokens[OF assms(2)])
  from x have "x \<in> insert ((tokens s ! i)\<lparr>enable := Some False\<rparr>) (set (tokens s))"
    using set_update_subset_insert by fastforce
  with r show "x \<in> set (tokens s)" by auto
qed

lemma disableToken_shrinks:
  assumes "i < length (tokens s)" and "disableToken e i s = Inr s2"
  shows "length (tokens s2) < length (tokens s)"
proof -
  let ?y = "(tokens s ! i)\<lparr>enable := Some False\<rparr>"
  have "?y \<in> set ((tokens s)[i := ?y])"
    using assms(1) by (rule set_update_memI)
  then have "length (filter (\<lambda>t. refresh_token t \<noteq> refresh_token (tokens s ! i))
                 ((tokens s)[i := ?y])) < length ((tokens s)[i := ?y])"
    by (rule length_filter_less) simp
  then show ?thesis by (simp add: disableToken_tokens[OF assms(2)])
qed

lemma disableToken_absent:
  "disableToken e i s = Inr s2 \<Longrightarrow>
   refresh_token (tokens s ! i) \<notin> refresh_token ` set (tokens s2)"
  by (auto simp: disableToken_tokens)

lemma loop_all_rejected:
  assumes "\<forall>t\<in>set (tokens s). isExpired e t \<and> permanently_rejected e (refresh_token t) \<and>
             access_token t \<noteq> None"
    and "currentIndex s < length (tokens s)"
    and "length (tokens s) \<le> n"
  shows "fst (getToken_loop e n s) = Inr None \<and> tokens (snd (getToken_loop e n s)) = []"
  using assms
proof (induction n arbitrary: s)
  case 0
  then show ?case by simp
next
  case (Suc n)
  let ?c = "currentIndex s"
  have mem: "tokens s ! ?c \<in> set (tokens s)"
    using Suc.prems(2) by simp
  then have exp: "isExpired e (tokens s ! ?c)"
    and rej: "permanently_rejected e (refresh_token (tokens s ! ?c))"
    and acc: "access_token (tokens s ! ?c) \<noteq> None"
    using Suc.prems(1) by blast+
  from rej obtain code body where
    o: "oauth e (refresh_token (tokens s ! ?c)) = Rejected code body"
    and code: "code = 403 \<or> code = 400"
    by (auto simp: permanently_rejected_def split: oauth_response.splits)
  have t: "try_token e s = Inl (HttpError code body)"
    using Suc.prems(2) exp o by (rule try_token_rejected)
  from disableToken_returns[OF acc] obtain s2 where d: "disableToken e ?c s = Inr s2"
    by blast
  have step: "getToken_loop e (Suc n) s =
      (if tokens s2 = [] then (Inr None, s2) else getToken_loop e n s2)"
    using t code d by auto
  show ?case
  proof (cases "tokens s2 = []")
    case True
    then show ?thesis using step by simp
  next
    case False
    have 1: "\<forall>t\<in>set (tokens s2). isExpired e t \<and> permanently_rejected e (refresh_token t) \<and>
        access_token t \<noteq> None"
      using Suc.prems(1) disableToken_subset[OF Suc.prems(2) d] by blast
    have 2: "currentIndex s2 < length (tokens s2)"
      using pool_inv_disableToken[OF d] False by (simp add: pool_inv_def)
    have 3: "length (tokens s2) \<le> n"
      using disableToken_shrinks[OF Suc.prems(2) d] Suc.prems(3) by simp
    from Suc.IH[OF 1 2 3] show ?thesis using step False by simp
  qed
qed

lemma try_token_fails:
  assumes "\<forall>t\<in>set (tokens s). isExpired e t \<and> refresh_fails e (refresh_token t)"
  shows "\<exists>err. try_token e s = Inl err \<and>
           (statusCode err \<noteq> None \<longrightarrow> currentIndex s < length (tokens s))"
proof (cases "currentIndex s < length (tokens s)")
  case True
  then have "tokens s ! currentIndex s \<in> set (tokens s)" by simp
  with assms have "isExpired e (tokens s ! currentIndex s)"
    and "refresh_fails e (refresh_token (tokens s ! currentIndex s))" by blast+
  then show ?thesis using True
    by (auto simp: try_token_def refreshToken_def refresh_fails_def Let_def
        split: oauth_response.splits)
next
  case False
  then show ?thesis by (simp add: try_token_def Let_def)
qed

lemma loop_all_fail:
  assumes "\<forall>t\<in>set (tokens s). isExpired e t \<and> refresh_fails e (refresh_token t)"
  shows "fst (getToken_loop e n s) \<noteq> Inr (Some t)"
  using assms
proof (induction n arbitrary: s)
  case 0
  then show ?case by simp
next
  case (Suc n)
  from try_token_fails[OF Suc.prems] obtain err where
    t: "try_token e s = Inl err"
    and r: "statusCode err \<noteq> None \<longrightarrow> currentIndex s < length (tokens s)"
    by blast
  show ?case
  proof (cases "statusCode err = Some 403 \<or> statusCode err = Some 400")
    case True
    then have c: "currentIndex s < length (tokens s)" using r by auto
    show ?thesis
    proof (cases "disableToken e (currentIndex s) s")
      case (Inl thrown)
      then show ?thesis using t True by simp
    next
      case (Inr s2)
      have "\<forall>t\<in>set (tokens s2). isExpired e t \<and> refresh_fails e (refresh_token t)"
        using Suc.prems disableToken_subset[OF c Inr] by blast
      from Suc.IH[OF this] show ?thesis using t True Inr by simp
    qed
  next
    case False
    have "fst (getToken_loop e n
             (s\<lparr>currentIndex := (currentIndex s + 1) mod length (tokens s)\<rparr>)) \<noteq> Inr (Some t)"
      by (rule Suc.IH) (use Suc.prems in simp)
    then show ?thesis using t False by simp
  qed
qed

text \<open>
  When every credential that is rejected has an access token, \<^verbatim>\<open>getToken\<close> returns no
  credential: on a pool that is empty after the freshness check, and on a pool whose every
  credential is expired and rejected with 403 or 400, which it leaves empty. When every
  refresh fails, for whatever reason, it returns no credential either way: \<^verbatim>\<open>null\<close> or
  an error.
\<close>

lemma getToken_no_credential:
  "(tokens (loadTokens e s) = [] \<longrightarrow> getToken e s = (Inr None, loadTokens e s)) \<and>
   (pool_inv s \<and>
    (\<forall>t\<in>set (tokens (loadTokens e s)).
        isExpired e t \<and> permanently_rejected e (refresh_token t) \<and>
        access_token t \<noteq> None) \<longrightarrow>
    fst (getToken e s) = Inr None \<and> tokens (snd (getToken e s)) = []) \<and>
   ((\<forall>t\<in>set (tokens (loadTokens e s)).
        isExpired e t \<and> refresh_fails e (refresh_token t)) \<longrightarrow>
    (\<forall>t. fst (getToken e s) \<noteq> Inr (Some t)))"
proof -
  have c: "\<forall>t. fst (getToken e s) \<noteq> Inr (Some t)"
    if "\<forall>t\<in>set (tokens (loadTokens e s)).
        isExpired e t \<and> refresh_fails e (refresh_token t)"
    using loop_all_fail[OF that] by (simp add: getToken_def Let_def)
  have a: "getToken e s = (Inr None, loadTokens e s)" if "tokens (loadTokens e s) = []"
    using that by (simp add: getToken_def)
  have b: "fst (getToken e s) = Inr None \<and> tokens (snd (getToken e s)) = []"
    if h: "pool_inv s \<and>
      (\<forall>t\<in>set (tokens (loadTokens e s)).
          isExpired e t \<and> permanently_rejected e (refresh_token t) \<and>
          access_token t \<noteq> None)"
  proof (cases "tokens (loadTokens e s) = []")
    case True
    then show ?thesis by (simp add: getToken_def)
  next
    case False
    from h have "pool_inv (loadTokens e s)" by (simp add: pool_inv_loadTokens)
    with False have c: "currentIndex (loadTokens e s) < length (tokens (loadTokens e s))"
      by (simp add: pool_inv_def)
    from h loop_all_rejected[OF _ c order_refl] False
    show ?thesis by (simp add: getToken_def Let_def)
  qed
  show ?thesis using a b c by blast
qed

text \<open>
  Claim C7 fails on the code. \<^verbatim>\<open>getToken\<close> catches what its \<^verbatim>\<open>try\<close> block throws, but it
  calls \<^verbatim>\<open>disableToken\<close> in the \<^verbatim>\<open>catch\<close>, and \<^verbatim>\<open>disableToken\<close> begins by logging
  \<^verbatim>\<open>token.access_token.slice(-8)\<close>. A pool of one account that has a refresh token and no
  access token, its refresh rejected with 403: every credential of the pool fails
  permanently within the call, and the call throws a TypeError. Nothing is disabled: the
  account stays in the pool and the store is not written.
\<close>

theorem getToken_throws:
  "isExpired (world 1000 True (Rejected 403 []))
     (tokens (loadTokens (world 1000 True (Rejected 403 [])) (manager [bare_acct ''rA''] 0)) ! 0) \<and>
   permanently_rejected (world 1000 True (Rejected 403 [])) ''rA'' \<and>
   fst (getToken (world 1000 True (Rejected 403 [])) (manager [bare_acct ''rA''] 0)) =
     Inl (PlainError slice_message) \<and>
   map refresh_token
     (tokens (snd (getToken (world 1000 True (Rejected 403 [])) (manager [bare_acct ''rA''] 0))))
     = [''rA''] \<and>
   fileData (snd (getToken (world 1000 True (Rejected 403 [])) (manager [bare_acct ''rA''] 0))) =
     Some [bare_acct ''rA'']"
  by code_simp

lemma findIndex_Some:
  "findIndex P xs = Some j \<Longrightarrow> j < length xs \<and> P (xs ! j)"
proof (induction xs arbitrary: j)
  case Nil
  then show ?case by simp
next
  case (Cons x xs)
  then show ?case by (auto split: if_splits)
qed

lemma findIndex_None: "findIndex P xs = None \<Longrightarrow> \<forall>x\<in>set xs. \<not> P x"
  by (induction xs) (auto split: if_splits)

lemma rt_truncate [simp]: "refresh_token (cred.truncate m) = refresh_token m"
  by (simp add: cred.truncate_def)

lemma save_one_rts: "map refresh_token (save_one a m) = map refresh_token a"
proof (cases "findIndex (\<lambda>t. refresh_token t = refresh_token m) a")
  case None
  then show ?thesis by (simp add: save_one_def)
next
  case (Some j)
  from findIndex_Some[OF Some] have "j < length a" "refresh_token (a ! j) = refresh_token m"
    by simp_all
  then have "(map refresh_token a)[j := refresh_token m] = map refresh_token a"
    by (simp add: list_update_same_conv)
  then show ?thesis using Some by (simp add: save_one_def map_update)
qed

lemma save_one_set:
  "set (save_one a m) \<subseteq> insert (cred.truncate m) (set a)"
proof (cases "findIndex (\<lambda>t. refresh_token t = refresh_token m) a")
  case None
  then show ?thesis by (auto simp: save_one_def)
next
  case (Some j)
  then show ?thesis
    using set_update_subset_insert[of a j "cred.truncate m"] by (simp add: save_one_def)
qed

lemma disabled_in_iff:
  "disabled_in r cs \<longleftrightarrow>
     r \<in> set (map refresh_token cs) \<and> (\<forall>x\<in>set cs. refresh_token x = r \<longrightarrow> enable x = Some False)"
  by (auto simp: disabled_in_def list_ex_iff list_all_iff)

lemma save_one_disabled:
  assumes "disabled_in r a" and "refresh_token m \<noteq> r"
  shows "disabled_in r (save_one a m)"
proof -
  have "\<forall>x\<in>set (save_one a m). refresh_token x = r \<longrightarrow> enable x = Some False"
  proof (intro ballI impI)
    fix x assume x: "x \<in> set (save_one a m)" and r: "refresh_token x = r"
    from x save_one_set have "x = cred.truncate m \<or> x \<in> set a" by blast
    with r assms show "enable x = Some False"
      by (auto simp: disabled_in_iff)
  qed
  then show ?thesis using assms(1)
    unfolding disabled_in_iff save_one_rts by simp
qed

lemma foldl_save_one_disabled:
  assumes "disabled_in r a" and "r \<notin> refresh_token ` set ms"
  shows "disabled_in r (foldl save_one a ms)"
  using assms
proof (induction ms arbitrary: a)
  case Nil
  then show ?case by simp
next
  case (Cons m ms)
  from Cons.prems have "disabled_in r (save_one a m)"
    by (intro save_one_disabled) auto
  with Cons show ?case by simp
qed

lemma retired_saveToFile:
  assumes "retired r s"
  shows "retired r (saveToFile e s)"
proof -
  from assms obtain c f where c: "cachedData s = Some c" "disabled_in r c"
    and f: "fileData s = Some f" "disabled_in r f"
    and p: "r \<notin> refresh_token ` set (tokens s)"
    by (auto simp: retired_def split: option.splits)
  have "disabled_in r (foldl save_one c (tokens s))"
    using c(2) p by (rule foldl_save_one_disabled)
  then show ?thesis using c f p
    by (simp add: retired_def saveToFile_def Let_def)
qed

lemma retired_tokens_only:
  assumes "retired r s" and "r \<notin> refresh_token ` set ts"
  shows "retired r (s\<lparr>tokens := ts\<rparr>)"
  using assms by (simp add: retired_def)

lemma rts_update_same:
  assumes "refresh_token y = refresh_token (xs ! i)"
  shows "refresh_token ` set (xs[i := y]) \<subseteq> refresh_token ` set xs"
proof (cases "i < length xs")
  case True
  have "set (xs[i := y]) \<subseteq> insert y (set xs)" by (rule set_update_subset_insert)
  moreover have "refresh_token y \<in> refresh_token ` set xs"
    using True assms by simp
  ultimately show ?thesis by auto
next
  case False
  then show ?thesis by (simp add: list_update_beyond)
qed

lemma retired_refreshToken:
  assumes "retired r s" and "refreshToken e i s = Inr s1"
  shows "retired r s1"
proof -
  from assms(2) obtain tok ttl where
    s1: "s1 = saveToFile e (s\<lparr>tokens := (tokens s)[i := (tokens s ! i)
          \<lparr>access_token := Some tok, timestamp := Some (now e), expires_in := Some ttl\<rparr>]\<rparr>)"
    by (auto simp: refreshToken_def split: oauth_response.splits)
  have "r \<notin> refresh_token ` set ((tokens s)[i := (tokens s ! i)
          \<lparr>access_token := Some tok, timestamp := Some (now e), expires_in := Some ttl\<rparr>])"
  proof -
    have "refresh_token ((tokens s ! i)
          \<lparr>access_token := Some tok, timestamp := Some (now e), expires_in := Some ttl\<rparr>) =
          refresh_token (tokens s ! i)" by simp
    from rts_update_same[OF this] assms(1) show ?thesis
      by (auto simp: retired_def)
  qed
  then show ?thesis unfolding s1
    by (intro retired_saveToFile retired_tokens_only assms(1))
qed

lemma retired_disableToken:
  assumes "retired r s" and "disableToken e i s = Inr s2"
  shows "retired r s2"
proof -
  let ?y = "(tokens s ! i)\<lparr>enable := Some False\<rparr>"
  let ?s1 = "saveToFile e (s\<lparr>tokens := (tokens s)[i := ?y]\<rparr>)"
  have u: "r \<notin> refresh_token ` set ((tokens s)[i := ?y])"
  proof -
    have "refresh_token ?y = refresh_token (tokens s ! i)" by simp
    from rts_update_same[OF this] assms(1) show ?thesis
      by (auto simp: retired_def)
  qed
  then have 1: "retired r ?s1"
    by (intro retired_saveToFile retired_tokens_only assms(1))
  have "s2 =
     ?s1\<lparr>tokens := filter (\<lambda>t. refresh_token t \<noteq> refresh_token (tokens s ! i)) ((tokens s)[i := ?y]),
          currentIndex := currentIndex s mod
             max (length (filter (\<lambda>t. refresh_token t \<noteq> refresh_token (tokens s ! i))
                ((tokens s)[i := ?y]))) 1\<rparr>"
    using disableToken_Inr(2)[OF assms(2)] .
  moreover have "r \<notin> refresh_token ` set (filter (\<lambda>t. refresh_token t \<noteq> refresh_token (tokens s ! i))
      ((tokens s)[i := ?y]))"
    using u by auto
  ultimately show ?thesis using 1 by (simp add: retired_def)
qed

lemma retired_cursor [simp]: "retired r (s\<lparr>currentIndex := c\<rparr>) = retired r s"
  by (simp add: retired_def)

lemma retired_recordUsage [simp]: "retired r (recordUsage e t s) = retired r s"
  by (simp add: retired_def recordUsage_def Let_def)

lemma retired_try_token:
  assumes "retired r s" and "try_token e s = Inr (t, s1)"
  shows "retired r s1"
  using assms
  by (auto simp: try_token_def Let_def split: if_splits sum.splits
      dest: retired_refreshToken)

lemma retired_loop: "retired r s \<Longrightarrow> retired r (snd (getToken_loop e n s))"
proof (induction n arbitrary: s)
  case 0
  then show ?case by simp
next
  case (Suc n)
  show ?case
  proof (cases "try_token e s")
    case (Inr p)
    obtain t s1 where p: "p = (t, s1)" by (cases p)
    from retired_try_token[OF Suc.prems Inr[unfolded p]] show ?thesis
      using Inr p by simp
  next
    case (Inl err)
    show ?thesis
    proof (cases "statusCode err = Some 403 \<or> statusCode err = Some 400")
      case True
      show ?thesis
      proof (cases "disableToken e (currentIndex s) s")
        case thrown: (Inl x)
        then show ?thesis using Inl True Suc.prems by simp
      next
        case (Inr s2)
        have "retired r s2" using Suc.prems Inr by (rule retired_disableToken)
        with Suc.IH[OF this] show ?thesis using Inl True Inr by simp
      qed
    next
      case False
      have "retired r (s\<lparr>currentIndex := (currentIndex s + 1) mod length (tokens s)\<rparr>)"
        using Suc.prems by simp
      from Suc.IH[OF this] show ?thesis using Inl False by simp
    qed
  qed
qed

lemma map_snd_enumerate_comp: "map (\<lambda>p. g (snd p)) (enumerate n xs) = map g xs"
  by (induction xs arbitrary: n) simp_all

lemma assignProjectIds_keeps:
  "map (\<lambda>x. (refresh_token x, enable x)) (assignProjectIds e cs) =
   map (\<lambda>x. (refresh_token x, enable x)) cs"
proof -
  let ?g = "\<lambda>x. (refresh_token x, enable x)"
  let ?f = "\<lambda>(i, token). if falsy_str (projectId token)
            then token\<lparr>projectId := Some (generateProjectId e i)\<rparr> else token"
  have "map ?g (assignProjectIds e cs) = map (?g \<circ> ?f) (enumerate 0 cs)"
    by (simp add: assignProjectIds_def)
  also have "?g \<circ> ?f = (\<lambda>p. ?g (snd p))"
    by (auto simp: fun_eq_iff)
  also have "map (\<lambda>p. ?g (snd p)) (enumerate 0 cs) = map ?g cs"
    by (rule map_snd_enumerate_comp)
  finally show ?thesis .
qed

lemma disabled_in_pairs:
  "disabled_in r cs \<longleftrightarrow>
     (let ps = map (\<lambda>x. (refresh_token x, enable x)) cs
      in r \<in> fst ` set ps \<and> (\<forall>p\<in>set ps. fst p = r \<longrightarrow> snd p = Some False))"
  by (auto simp: disabled_in_iff Let_def image_iff)

lemma disabled_in_assignProjectIds:
  "disabled_in r (assignProjectIds e cs) = disabled_in r cs"
  unfolding disabled_in_pairs assignProjectIds_keeps ..

lemma withSessionIds_rts:
  "map refresh_token (withSessionIds e ts) = map refresh_token ts"
proof -
  let ?f = "\<lambda>(i, token). cred.extend token (entry.fields (generateSessionId e i))"
  have "map refresh_token (withSessionIds e ts) = map (refresh_token \<circ> ?f) (enumerate 0 ts)"
    by (simp add: withSessionIds_def)
  also have "refresh_token \<circ> ?f = (\<lambda>p. refresh_token (snd p))"
    by (auto simp: fun_eq_iff cred.extend_def)
  also have "map (\<lambda>p. refresh_token (snd p)) (enumerate 0 ts) = map refresh_token ts"
    by (rule map_snd_enumerate_comp)
  finally show ?thesis .
qed

lemma retired_initialize:
  assumes "retired r s"
  shows "retired r (initialize e s)"
proof -
  from assms obtain c f where c: "cachedData s = Some c" "disabled_in r c"
    and f: "fileData s = Some f" "disabled_in r f"
    by (auto simp: retired_def split: option.splits)
  let ?arr = "assignProjectIds e f"
  have d: "disabled_in r ?arr"
    using f(2) by (simp add: disabled_in_assignProjectIds)
  have "r \<notin> refresh_token ` set (filter (\<lambda>token. enable token \<noteq> Some False) ?arr)"
    using d by (auto simp: disabled_in_iff)
  then have "r \<notin> set (map refresh_token
      (withSessionIds e (filter (\<lambda>token. enable token \<noteq> Some False) ?arr)))"
    unfolding withSessionIds_rts by simp
  then have p: "r \<notin> refresh_token `
      set (withSessionIds e (filter (\<lambda>token. enable token \<noteq> Some False) ?arr))"
    by simp
  show ?thesis
    using c f d p by (simp add: initialize_def Let_def retired_def)
qed

lemma retired_loadTokens: "retired r s \<Longrightarrow> retired r (loadTokens e s)"
  by (simp add: loadTokens_def retired_initialize)

lemma retired_getToken: "retired r s \<Longrightarrow> retired r (snd (getToken e s))"
  by (simp add: getToken_def Let_def retired_loop retired_loadTokens)

text \<open>What one save writes, when refresh tokens are unique on both sides.\<close>

lemma unique_by_rt:
  assumes "distinct (map refresh_token cs)" and "x \<in> set cs" and "y \<in> set cs"
    and "refresh_token x = refresh_token y"
  shows "x = y"
  using assms by (meson distinct_map inj_onD)

lemma findIndex_first:
  "findIndex P xs = Some j \<Longrightarrow> \<forall>k<j. \<not> P (xs ! k)"
proof (induction xs arbitrary: j)
  case Nil
  then show ?case by simp
next
  case (Cons x xs)
  show ?case
  proof (cases "P x")
    case True
    with Cons.prems show ?thesis by simp
  next
    case False
    with Cons.prems obtain j' where j': "findIndex P xs = Some j'" "j = Suc j'"
      by auto
    from Cons.IH[OF j'(1)] False j'(2) show ?thesis
      by (auto simp: nth_Cons split: nat.splits)
  qed
qed

lemma save_one_map:
  assumes "distinct (map refresh_token a)"
  shows "save_one a m =
     map (\<lambda>x. if refresh_token x = refresh_token m then cred.truncate m else x) a"
proof (cases "findIndex (\<lambda>t. refresh_token t = refresh_token m) a")
  case None
  from findIndex_None[OF None] have "\<forall>x\<in>set a. refresh_token x \<noteq> refresh_token m" .
  then have "map (\<lambda>x. if refresh_token x = refresh_token m then cred.truncate m else x) a = a"
    by (induction a) auto
  then show ?thesis using None by (simp add: save_one_def)
next
  case (Some j)
  from findIndex_Some[OF Some] have j: "j < length a" "refresh_token (a ! j) = refresh_token m"
    by simp_all
  have "a[j := cred.truncate m] =
     map (\<lambda>x. if refresh_token x = refresh_token m then cred.truncate m else x) a"
  proof (rule nth_equalityI)
    show "length (a[j := cred.truncate m]) =
      length (map (\<lambda>x. if refresh_token x = refresh_token m then cred.truncate m else x) a)"
      by simp
  next
    fix k assume "k < length (a[j := cred.truncate m])"
    then have k: "k < length a" by simp
    show "a[j := cred.truncate m] ! k =
      map (\<lambda>x. if refresh_token x = refresh_token m then cred.truncate m else x) a ! k"
    proof (cases "k = j")
      case True
      then show ?thesis using j by simp
    next
      case False
      have "refresh_token (a ! k) \<noteq> refresh_token (a ! j)"
      proof
        assume "refresh_token (a ! k) = refresh_token (a ! j)"
        then have "map refresh_token a ! k = map refresh_token a ! j"
          using k j(1) by simp
        then have "k = j"
          using assms k j(1) by (simp add: nth_eq_iff_index_eq del: nth_map)
        with False show False by simp
      qed
      then show ?thesis using False k j by simp
    qed
  qed
  then show ?thesis using Some by (simp add: save_one_def)
qed

lemma foldl_save_one_map:
  assumes "distinct (map refresh_token a)" and "distinct (map refresh_token ms)"
  shows "foldl save_one a ms =
     map (\<lambda>x. case find (\<lambda>m. refresh_token m = refresh_token x) ms of
                 None \<Rightarrow> x | Some m \<Rightarrow> cred.truncate m) a"
  using assms
proof (induction ms arbitrary: a)
  case Nil
  then show ?case by simp
next
  case (Cons m ms)
  let ?h = "\<lambda>x. if refresh_token x = refresh_token m then cred.truncate m else x"
  let ?G = "\<lambda>ms x. case find (\<lambda>m. refresh_token m = refresh_token x) ms of
                 None \<Rightarrow> x | Some m \<Rightarrow> cred.truncate m"
  have a': "save_one a m = map ?h a"
    using Cons.prems(1) by (rule save_one_map)
  have d': "distinct (map refresh_token (save_one a m))"
    using Cons.prems(1) by (simp add: save_one_rts)
  have dms: "distinct (map refresh_token ms)" and notin: "refresh_token m \<notin> refresh_token ` set ms"
    using Cons.prems(2) by simp_all
  have none: "find (\<lambda>m'. refresh_token m' = refresh_token m) ms = None"
  proof -
    have "\<forall>x\<in>set ms. refresh_token x \<noteq> refresh_token m"
      using notin by (auto simp: image_iff)
    then show ?thesis by (simp add: find_None_iff)
  qed
  have "foldl save_one a (m # ms) = foldl save_one (save_one a m) ms" by simp
  also have "\<dots> = map (?G ms) (save_one a m)"
    using d' dms by (rule Cons.IH)
  also have "\<dots> = map (?G ms \<circ> ?h) a"
    by (simp add: a')
  also have "?G ms \<circ> ?h = ?G (m # ms)"
    using none by (auto simp: fun_eq_iff)
  finally show ?case .
qed

lemma find_Some_mem: "find P xs = Some m \<Longrightarrow> m \<in> set xs \<and> P m"
  by (induction xs) (auto split: if_splits)

lemma truncate_enable:
  "cred.truncate (m\<lparr>enable := v\<rparr>) = (cred.truncate m)\<lparr>enable := v\<rparr>"
  by (simp add: cred.truncate_def)

lemma disableToken_store:
  assumes sync: "in_sync cs s" and ok: "disk_ok e" and c: "i < length (tokens s)"
    and d: "disableToken e i s = Inr s2"
  shows "fileData s2 =
           Some (map (\<lambda>x. if refresh_token x = refresh_token (tokens s ! i)
                          then x\<lparr>enable := Some False\<rparr> else x) cs) \<and>
         cachedData s2 = fileData s2"
proof -
  let ?t = "tokens s ! i"
  let ?t' = "?t\<lparr>enable := Some False\<rparr>"
  let ?ms = "(tokens s)[i := ?t']"
  let ?f = "\<lambda>x. if refresh_token x = refresh_token ?t then x\<lparr>enable := Some False\<rparr> else x"
  let ?G = "\<lambda>x. case find (\<lambda>m. refresh_token m = refresh_token x) ?ms of
                 None \<Rightarrow> x | Some m \<Rightarrow> cred.truncate m"
  from sync have cache: "cachedData s = Some cs" and dcs: "distinct (map refresh_token cs)"
    and dts: "distinct (map refresh_token (tokens s))"
    and mem: "\<forall>m\<in>set (tokens s). cred.truncate m \<in> set cs"
    by (simp_all add: in_sync_def list_all_iff)
  have "map refresh_token ?ms = (map refresh_token (tokens s))[i := refresh_token ?t]"
    by (simp add: map_update)
  also have "\<dots> = map refresh_token (tokens s)"
    using c by (simp add: list_update_same_conv)
  finally have rms: "map refresh_token ?ms = map refresh_token (tokens s)" .
  then have dms: "distinct (map refresh_token ?ms)" using dts by simp
  have t'in: "?t' \<in> set ?ms" using c by (rule set_update_memI)
  have tin: "cred.truncate ?t \<in> set cs" using mem c by simp
  have fold: "foldl save_one cs ?ms = map ?G cs"
    using dcs dms by (rule foldl_save_one_map)
  have "?G x = ?f x" if x: "x \<in> set cs" for x
  proof (cases "find (\<lambda>m. refresh_token m = refresh_token x) ?ms")
    case None
    then have "refresh_token ?t' \<noteq> refresh_token x"
      using t'in by (auto simp: find_None_iff)
    then show ?thesis using None by simp
  next
    case (Some m)
    from find_Some_mem[OF Some] have m: "m \<in> set ?ms" "refresh_token m = refresh_token x"
      by simp_all
    show ?thesis
    proof (cases "refresh_token x = refresh_token ?t")
      case True
      have "m = ?t'"
        using dms m(1) t'in m(2) True by (intro unique_by_rt[of ?ms m ?t']; simp)
      moreover have "x = cred.truncate ?t"
        using dcs x tin True by (intro unique_by_rt[of cs x "cred.truncate ?t"]; simp)
      ultimately show ?thesis using Some True by (simp add: truncate_enable)
    next
      case False
      then have "m \<noteq> ?t'" using m(2) by auto
      then have "m \<in> set (tokens s)"
        using m(1) set_update_subset_insert[of "tokens s" i ?t'] by auto
      then have "cred.truncate m \<in> set cs" using mem by blast
      then have "cred.truncate m = x"
        using dcs x m(2) by (intro unique_by_rt[of cs "cred.truncate m" x]; simp)
      then show ?thesis using Some False by simp
    qed
  qed
  then have "map ?G cs = map ?f cs" by simp
  with fold have "foldl save_one cs ?ms = map ?f cs" by simp
  then show ?thesis
    using cache ok unfolding disableToken_Inr(2)[OF d]
    by (simp add: saveToFile_def Let_def)
qed

lemma disableToken_retires:
  assumes sync: "in_sync cs s" and ok: "disk_ok e" and c: "i < length (tokens s)"
    and d: "disableToken e i s = Inr s2"
  shows "retired (refresh_token (tokens s ! i)) s2"
proof -
  let ?r = "refresh_token (tokens s ! i)"
  let ?f = "\<lambda>x. if refresh_token x = ?r then x\<lparr>enable := Some False\<rparr> else x"
  from sync c have "cred.truncate (tokens s ! i) \<in> set cs"
    by (simp add: in_sync_def list_all_iff)
  then have "?r \<in> refresh_token ` set cs"
    by (metis imageI rt_truncate)
  then have "disabled_in ?r (map ?f cs)"
    by (auto simp: disabled_in_iff image_iff)
  then show ?thesis
    using disableToken_store[OF sync ok c d] disableToken_absent[OF d]
    by (simp add: retired_def)
qed

lemma refreshToken_rts:
  "refreshToken e i s = Inr s1 \<Longrightarrow>
   refresh_token ` set (tokens s1) \<subseteq> refresh_token ` set (tokens s)"
proof -
  assume "refreshToken e i s = Inr s1"
  then obtain tok ttl where
    s1: "tokens s1 = (tokens s)[i := (tokens s ! i)
          \<lparr>access_token := Some tok, timestamp := Some (now e), expires_in := Some ttl\<rparr>]"
    by (auto simp: refreshToken_def split: oauth_response.splits)
  have "refresh_token ((tokens s ! i)
          \<lparr>access_token := Some tok, timestamp := Some (now e), expires_in := Some ttl\<rparr>) =
        refresh_token (tokens s ! i)" by simp
  from rts_update_same[OF this] show ?thesis unfolding s1 .
qed

lemma disableToken_rts:
  "disableToken e i s = Inr s2 \<Longrightarrow>
   refresh_token ` set (tokens s2) \<subseteq> refresh_token ` set (tokens s)"
proof -
  assume d: "disableToken e i s = Inr s2"
  have "refresh_token ((tokens s ! i)\<lparr>enable := Some False\<rparr>) = refresh_token (tokens s ! i)"
    by simp
  from rts_update_same[OF this] show ?thesis
    by (auto simp: disableToken_tokens[OF d])
qed

lemma try_token_rts:
  assumes "try_token e s = Inr (t, s1)"
  shows "refresh_token ` set (tokens s1) \<subseteq> refresh_token ` set (tokens s)"
proof (cases "isExpired e (tokens s ! currentIndex s)")
  case True
  with assms obtain s0 where r: "refreshToken e (currentIndex s) s = Inr s0"
    and "tokens s1 = tokens s0"
    by (auto simp: try_token_def Let_def split: if_splits sum.splits)
  with refreshToken_rts[OF r] show ?thesis by simp
next
  case False
  with assms have "tokens s1 = tokens s"
    by (auto simp: try_token_def Let_def split: if_splits)
  then show ?thesis by simp
qed

lemma loop_rts:
  "refresh_token ` set (tokens (snd (getToken_loop e n s))) \<subseteq> refresh_token ` set (tokens s)"
proof (induction n arbitrary: s)
  case 0
  then show ?case by simp
next
  case (Suc n)
  show ?case
  proof (cases "try_token e s")
    case (Inr p)
    obtain t s1 where p: "p = (t, s1)" by (cases p)
    from try_token_rts[OF Inr[unfolded p]] show ?thesis using Inr p by simp
  next
    case (Inl err)
    let ?a = "s\<lparr>currentIndex := (currentIndex s + 1) mod length (tokens s)\<rparr>"
    show ?thesis
    proof (cases "statusCode err = Some 403 \<or> statusCode err = Some 400")
      case True
      show ?thesis
      proof (cases "disableToken e (currentIndex s) s")
        case thrown: (Inl x)
        then show ?thesis using Inl True by simp
      next
        case (Inr s2)
        have "refresh_token ` set (tokens (snd (getToken_loop e n s2))) \<subseteq>
            refresh_token ` set (tokens s)"
          using Suc.IH[of s2] disableToken_rts[OF Inr] by blast
        then show ?thesis using Inl True Inr disableToken_rts[OF Inr] by simp
      qed
    next
      case False
      have "refresh_token ` set (tokens (snd (getToken_loop e n ?a))) \<subseteq>
          refresh_token ` set (tokens s)"
        using Suc.IH[of ?a] by simp
      then show ?thesis using Inl False by simp
    qed
  qed
qed

text \<open>A load that succeeds on a store with unique refresh tokens leaves the manager in sync.\<close>

lemma assignProjectIds_rts:
  "map refresh_token (assignProjectIds e cs) = map refresh_token cs"
proof -
  have "map fst (map (\<lambda>x. (refresh_token x, enable x)) (assignProjectIds e cs)) =
        map fst (map (\<lambda>x. (refresh_token x, enable x)) cs)"
    by (simp only: assignProjectIds_keeps)
  then show ?thesis by (simp add: comp_def)
qed

lemma assignProjectIds_same:
  assumes "\<not> list_ex (\<lambda>token. falsy_str (projectId token)) cs"
  shows "assignProjectIds e cs = cs"
proof -
  let ?f = "\<lambda>(i, token). if falsy_str (projectId token)
            then token\<lparr>projectId := Some (generateProjectId e i)\<rparr> else token"
  have "\<forall>p\<in>set (enumerate 0 cs). ?f p = snd p"
    using assms by (auto simp: list_ex_iff in_set_enumerate_eq)
  then have "map ?f (enumerate 0 cs) = map snd (enumerate 0 cs)"
    by (intro map_cong) auto
  then show ?thesis by (simp add: assignProjectIds_def)
qed

lemma withSessionIds_truncate:
  "map cred.truncate (withSessionIds e ts) = ts"
proof -
  let ?f = "\<lambda>(i, token). cred.extend token (entry.fields (generateSessionId e i))"
  have "map cred.truncate (withSessionIds e ts) = map (cred.truncate \<circ> ?f) (enumerate 0 ts)"
    by (simp add: withSessionIds_def)
  also have "cred.truncate \<circ> ?f = (\<lambda>p. id (snd p))"
    by (auto simp: fun_eq_iff cred.extend_def cred.truncate_def)
  also have "map (\<lambda>p. id (snd p)) (enumerate 0 ts) = map id ts"
    by (rule map_snd_enumerate_comp)
  finally show ?thesis by simp
qed

lemma initialize_in_sync:
  assumes "fileData s = Some data"
    and "distinct (map refresh_token data)"
    and "list_ex (\<lambda>token. falsy_str (projectId token)) data \<longrightarrow> disk_ok e"
  shows "in_sync (assignProjectIds e data) (initialize e s)"
proof -
  let ?arr = "assignProjectIds e data"
  let ?kept = "filter (\<lambda>token. enable token \<noteq> Some False) ?arr"
  have f: "fileData (initialize e s) = Some ?arr"
    using assms(1,3) assignProjectIds_same[of data e]
    by (auto simp: initialize_def Let_def)
  have c: "cachedData (initialize e s) = Some ?arr"
    and t: "tokens (initialize e s) = withSessionIds e ?kept"
    using assms(1,3) by (auto simp: initialize_def Let_def)
  have d1: "distinct (map refresh_token ?arr)"
    using assms(2) by (simp add: assignProjectIds_rts)
  then have d2: "distinct (map refresh_token (withSessionIds e ?kept))"
    by (simp add: withSessionIds_rts distinct_map_filter)
  have "set (map cred.truncate (withSessionIds e ?kept)) \<subseteq> set ?arr"
    unfolding withSessionIds_truncate by auto
  then have m: "list_all (\<lambda>m. cred.truncate m \<in> set ?arr) (withSessionIds e ?kept)"
    by (auto simp: list_all_iff)
  show ?thesis
    using f c t d1 d2 m by (simp add: in_sync_def)
qed

text \<open>
  Claim C4, as the code has it. The statuses that retire a credential are 403 and 400.
  In whichever iteration of the loop the credential under the cursor is expired, has an
  access token, and has its refresh rejected with one of them, \<^verbatim>\<open>disableToken\<close> returns,
  no entry with that refresh token is left in the pool, and the loop goes on from there,
  so that no such entry is in the pool when the loop ends; the iterations of a call of
  \<^verbatim>\<open>getToken\<close> are such iterations, and what holds at the end of the loop holds when the
  call returns. When moreover the store can be written and the manager agrees with it
  (\<open>in_sync\<close>), the disablement writes the store with \<^verbatim>\<open>enable: false\<close> on that account and
  every other record as it was; the account is still recorded as disabled when the call
  returns, and it is absent from the pool after the next call too, whether that call
  reloads the store or not.
\<close>

theorem permanent_rejection_disables:
  assumes "currentIndex s < length (tokens s)"
    and "t = tokens s ! currentIndex s"
    and "isExpired e t"
    and "oauth e (refresh_token t) = Rejected code body"
    and "code = 403 \<or> code = 400"
    and "access_token t \<noteq> None"
  shows "\<exists>s2. disableToken e (currentIndex s) s = Inr s2 \<and>
           getToken_loop e (Suc n) s =
             (if tokens s2 = [] then (Inr None, s2) else getToken_loop e n s2) \<and>
           refresh_token t \<notin> refresh_token ` set (tokens s2) \<and>
           refresh_token t \<notin> refresh_token ` set (tokens (snd (getToken_loop e (Suc n) s))) \<and>
           (\<forall>s0. (n, s) \<in> set (iterations e s0) \<longrightarrow>
              getToken e s0 = getToken_loop e (Suc n) s \<and>
              refresh_token t \<notin> refresh_token ` set (tokens (snd (getToken e s0)))) \<and>
           (disk_ok e \<and> in_sync cs s \<longrightarrow>
              fileData s2 =
                Some (map (\<lambda>x. if refresh_token x = refresh_token t
                               then x\<lparr>enable := Some False\<rparr> else x) cs) \<and>
              retired (refresh_token t) (snd (getToken_loop e (Suc n) s)) \<and>
              (\<forall>s0. (n, s) \<in> set (iterations e s0) \<longrightarrow>
                 retired (refresh_token t) (snd (getToken e s0)) \<and>
                 (\<forall>e'. retired (refresh_token t)
                         (snd (getToken e' (snd (getToken e s0)))))))"
proof -
  let ?c = "currentIndex s"
  let ?r = "refresh_token t"
  from disableToken_returns[OF assms(6)[unfolded assms(2)]] obtain s2 where
    d: "disableToken e ?c s = Inr s2" by blast
  have tt: "try_token e s = Inl (HttpError code body)"
    using assms(1) assms(3,4)[unfolded assms(2)] by (rule try_token_rejected)
  have step: "getToken_loop e (Suc n) s =
      (if tokens s2 = [] then (Inr None, s2) else getToken_loop e n s2)"
    using tt assms(5) d by auto
  have abs2: "?r \<notin> refresh_token ` set (tokens s2)"
    unfolding assms(2) using d by (rule disableToken_absent)
  have A: "?r \<notin> refresh_token ` set (tokens (snd (getToken_loop e (Suc n) s)))"
    using abs2 loop_rts[of e n s2] unfolding step by auto
  have G: "getToken e s0 = getToken_loop e (Suc n) s \<and>
      ?r \<notin> refresh_token ` set (tokens (snd (getToken e s0)))"
    if "(n, s) \<in> set (iterations e s0)" for s0
    using iterations_result[OF that] A by simp
  have S: "fileData s2 =
              Some (map (\<lambda>x. if refresh_token x = ?r
                             then x\<lparr>enable := Some False\<rparr> else x) cs) \<and>
            retired ?r (snd (getToken_loop e (Suc n) s)) \<and>
            (\<forall>s0. (n, s) \<in> set (iterations e s0) \<longrightarrow>
               retired ?r (snd (getToken e s0)) \<and>
               (\<forall>e'. retired ?r (snd (getToken e' (snd (getToken e s0))))))"
    if ok: "disk_ok e" and sync: "in_sync cs s"
  proof -
    have 1: "fileData s2 =
              Some (map (\<lambda>x. if refresh_token x = ?r
                             then x\<lparr>enable := Some False\<rparr> else x) cs)"
      using disableToken_store[OF sync ok assms(1) d] unfolding assms(2) by simp
    have r2: "retired ?r s2"
      unfolding assms(2) using sync ok assms(1) d by (rule disableToken_retires)
    have 2: "retired ?r (snd (getToken_loop e (Suc n) s))"
      unfolding step using r2 by (simp add: retired_loop)
    have 3: "retired ?r (snd (getToken e s0)) \<and>
               (\<forall>e'. retired ?r (snd (getToken e' (snd (getToken e s0)))))"
      if "(n, s) \<in> set (iterations e s0)" for s0
      using iterations_result[OF that] 2 by (simp add: retired_getToken)
    show ?thesis using 1 2 3 by blast
  qed
  show ?thesis
    using d step abs2 A G S by (intro exI[of _ s2]) blast
qed


theorem permanent_rejection_disables_witness:
  "(1, manager accounts_two_stale 1) \<in>
     set (iterations (world_of 1000 [(''rB'', Rejected 403 [])]) (manager accounts_two_stale 0)) \<and>
   fst (getToken (world_of 1000 [(''rB'', Rejected 403 [])]) (manager accounts_two_stale 0)) =
     Inr (Some (pooled (acct ''rC'' ''aC'' (Some 1)))) \<and>
   ''rB'' \<notin> refresh_token ` set (tokens (snd (getToken
       (world_of 1000 [(''rB'', Rejected 403 [])]) (manager accounts_two_stale 0)))) \<and>
   (\<exists>s2. disableToken (world_of 1000 [(''rB'', Rejected 403 [])]) 1
            (manager accounts_two_stale 1) = Inr s2 \<and>
      fileData s2 =
        Some [acct ''rA'' ''aA'' None, (acct ''rB'' ''aB'' None)\<lparr>enable := Some False\<rparr>,
              acct ''rC'' ''aC'' (Some 1)]) \<and>
   retired ''rB'' (snd (getToken (world_of 1000 [(''rB'', Rejected 403 [])])
      (manager accounts_two_stale 0))) \<and>
   retired ''rB'' (snd (getToken (world 70000 True (Rejected 403 []))
      (snd (getToken (world_of 1000 [(''rB'', Rejected 403 [])])
         (manager accounts_two_stale 0)))))"
proof -
  let ?e = "world_of 1000 [(''rB'', Rejected 403 [])]"
  let ?z = "manager accounts_two_stale 0" and ?s = "manager accounts_two_stale 1"
  let ?t = "tokens ?s ! currentIndex ?s"
  have it: "(1, ?s) \<in> set (iterations ?e ?z)"
    by (simp add: iterations_def loadTokens_def loadInterval_def manager_def world_of_def
        accounts_two_stale_def acct_def pooled_def cred.extend_def entry.fields_def
        try_token_def isExpired_def falsy_num_def refreshToken_def Let_def)
  have 1: "currentIndex ?s < length (tokens ?s)" by code_simp
  have 3: "isExpired ?e ?t" by code_simp
  have 4: "oauth ?e (refresh_token ?t) = Rejected 403 []" by code_simp
  have 5: "(403::nat) = 403 \<or> (403::nat) = 400" by simp
  have 6: "access_token ?t \<noteq> None"
    by (simp add: manager_def accounts_two_stale_def acct_def pooled_def cred.extend_def)
  have 7: "disk_ok ?e \<and> in_sync accounts_two_stale ?s" by code_simp
  have r: "refresh_token ?t = ''rB''" by code_simp
  have c: "currentIndex ?s = 1" by code_simp
  have m: "map (\<lambda>x. if refresh_token x = ''rB'' then x\<lparr>enable := Some False\<rparr> else x)
      accounts_two_stale =
     [acct ''rA'' ''aA'' None, (acct ''rB'' ''aB'' None)\<lparr>enable := Some False\<rparr>,
      acct ''rC'' ''aC'' (Some 1)]" by code_simp
  have g: "fst (getToken ?e ?z) = Inr (Some (pooled (acct ''rC'' ''aC'' (Some 1))))"
    by code_simp
  have r': "refresh_token (tokens ?s ! 1) = ''rB''" by code_simp
  from permanent_rejection_disables[OF 1 refl 3 4 5 6, of 1 accounts_two_stale]
  obtain s2 where d: "disableToken ?e (currentIndex ?s) ?s = Inr s2"
    and G: "\<forall>s0. (1, ?s) \<in> set (iterations ?e s0) \<longrightarrow>
              getToken ?e s0 = getToken_loop ?e (Suc 1) ?s \<and>
              refresh_token ?t \<notin> refresh_token ` set (tokens (snd (getToken ?e s0)))"
    and S: "disk_ok ?e \<and> in_sync accounts_two_stale ?s \<longrightarrow>
              fileData s2 =
                Some (map (\<lambda>x. if refresh_token x = refresh_token ?t
                               then x\<lparr>enable := Some False\<rparr> else x) accounts_two_stale) \<and>
              retired (refresh_token ?t) (snd (getToken_loop ?e (Suc 1) ?s)) \<and>
              (\<forall>s0. (1, ?s) \<in> set (iterations ?e s0) \<longrightarrow>
                 retired (refresh_token ?t) (snd (getToken ?e s0)) \<and>
                 (\<forall>e'. retired (refresh_token ?t)
                         (snd (getToken e' (snd (getToken ?e s0))))))"
    by (elim exE conjE)
  have a: "refresh_token ?t \<notin> refresh_token ` set (tokens (snd (getToken ?e ?z)))"
    using G[rule_format, OF it] by (rule conjunct2)
  note S' = S[rule_format, OF 7]
  have f: "fileData s2 =
                Some (map (\<lambda>x. if refresh_token x = refresh_token ?t
                               then x\<lparr>enable := Some False\<rparr> else x) accounts_two_stale)"
    using S' by (rule conjunct1)
  note R = S'[THEN conjunct2, THEN conjunct2, rule_format, OF it]
  have r1: "retired (refresh_token ?t) (snd (getToken ?e ?z))"
    using R by (rule conjunct1)
  have r2: "retired (refresh_token ?t)
        (snd (getToken (world 70000 True (Rejected 403 [])) (snd (getToken ?e ?z))))"
    using R[THEN conjunct2] by (rule spec)
  have d': "disableToken ?e 1 ?s = Inr s2" using d unfolding c .
  have f': "fileData s2 =
        Some [acct ''rA'' ''aA'' None, (acct ''rB'' ''aB'' None)\<lparr>enable := Some False\<rparr>,
              acct ''rC'' ''aC'' (Some 1)]"
    using f unfolding r m .
  have x: "\<exists>s2. disableToken ?e 1 ?s = Inr s2 \<and>
      fileData s2 =
        Some [acct ''rA'' ''aA'' None, (acct ''rB'' ''aB'' None)\<lparr>enable := Some False\<rparr>,
              acct ''rC'' ''aC'' (Some 1)]"
    using d' f' by (intro exI[of _ s2] conjI)
  show ?thesis
    using it g a[unfolded r] x r1[unfolded r] r2[unfolded r] by (intro conjI)
qed

text \<open>
  With status 401 nothing of this happens: the \<^verbatim>\<open>catch\<close> tests for 403 and 400 only, so
  the account stays in the pool, the cursor moves on to the next one, and the store is not
  written. And with status 403 and a disk that cannot be written, the store keeps the
  account enabled: the pool being empty, the next call reloads it, and returns the account
  once its refresh succeeds.
\<close>

theorem not_retired_counterexample:
  "isExpired (world 1000 True (Rejected 401 [])) (tokens (manager accounts_stale 0) ! 0) \<and>
   oauth (world 1000 True (Rejected 401 []))
     (refresh_token (tokens (manager accounts_stale 0) ! 0)) = Rejected 401 [] \<and>
   fst (getToken (world 1000 True (Rejected 401 [])) (manager accounts_stale 0)) =
     Inr (Some (pooled (acct ''rB'' ''aB'' (Some 1)))) \<and>
   map refresh_token (tokens (snd (getToken (world 1000 True (Rejected 401 []))
     (manager accounts_stale 0)))) = [''rA'', ''rB'', ''rC''] \<and>
   fileData (snd (getToken (world 1000 True (Rejected 401 [])) (manager accounts_stale 0))) =
     Some accounts_stale \<and>
   tokens (snd (getToken (world 1000 False (Rejected 403 []))
     (manager [acct ''rA'' ''aA'' None] 0))) = [] \<and>
   fileData (snd (getToken (world 1000 False (Rejected 403 []))
     (manager [acct ''rA'' ''aA'' None] 0))) = Some [acct ''rA'' ''aA'' None] \<and>
   map_sum id (map_option refresh_token)
     (fst (getToken (world 2000 True (Granted ''new'' 3600))
        (snd (getToken (world 1000 False (Rejected 403 []))
           (manager [acct ''rA'' ''aA'' None] 0))))) = Inr (Some ''rA'')"
  by code_simp

lemma saveToFile_failed_write: "\<not> disk_ok e \<Longrightarrow> fileData (saveToFile e s) = fileData s"
  by (simp add: saveToFile_def Let_def split: option.splits)

text \<open>
  Claim C3, as the code has it. A storage failure is caught where it happens and the
  operation returns normally, without a second attempt. A load that cannot read the file,
  or cannot write the project ids it assigned, empties the pool and changes nothing else.
  A save that cannot write leaves the pool, the cursor and the file as they are (and does
  nothing at all when it has neither a cache nor a readable file). The refresh and the
  disablement around a failed save still take effect in memory: the refreshed entry keeps
  its new token fields, the disabled credential leaves the pool. (The disablement is that
  of an entry with an access token: without one \<^verbatim>\<open>disableToken\<close> throws at its first
  statement, before it reaches the store.)
\<close>

theorem storage_failures:
  "(fileData s = None \<longrightarrow> initialize e s = s\<lparr>tokens := []\<rparr>) \<and>
   (\<forall>data. fileData s = Some data \<and> list_ex (\<lambda>t. falsy_str (projectId t)) data \<and>
       \<not> disk_ok e \<longrightarrow> initialize e s = s\<lparr>tokens := []\<rparr>) \<and>
   (\<not> disk_ok e \<longrightarrow>
      tokens (saveToFile e s) = tokens s \<and> currentIndex (saveToFile e s) = currentIndex s \<and>
      fileData (saveToFile e s) = fileData s) \<and>
   (cachedData s = None \<and> fileData s = None \<longrightarrow> saveToFile e s = s) \<and>
   (\<forall>tok ttl. \<not> disk_ok e \<and> oauth e (refresh_token (tokens s ! i)) = Granted tok ttl \<longrightarrow>
      (\<exists>s1. refreshToken e i s = Inr s1 \<and>
         tokens s1 = (tokens s)[i := (tokens s ! i)
            \<lparr>access_token := Some tok, timestamp := Some (now e), expires_in := Some ttl\<rparr>] \<and>
         currentIndex s1 = currentIndex s \<and> fileData s1 = fileData s)) \<and>
   (\<not> disk_ok e \<and> access_token (tokens s ! i) \<noteq> None \<longrightarrow>
      (\<exists>s2. disableToken e i s = Inr s2 \<and>
         tokens s2 =
           filter (\<lambda>t. refresh_token t \<noteq> refresh_token (tokens s ! i))
             ((tokens s)[i := (tokens s ! i)\<lparr>enable := Some False\<rparr>]) \<and>
         currentIndex s2 = currentIndex s mod max (length (tokens s2)) 1 \<and>
         fileData s2 = fileData s))"
proof -
  have 1: "initialize e s = s\<lparr>tokens := []\<rparr>" if "fileData s = None"
    using that by (simp add: initialize_def)
  have 2: "initialize e s = s\<lparr>tokens := []\<rparr>"
    if "fileData s = Some data \<and> list_ex (\<lambda>t. falsy_str (projectId t)) data \<and> \<not> disk_ok e"
    for data
    using that by (simp add: initialize_def Let_def)
  have 3: "tokens (saveToFile e s) = tokens s \<and> currentIndex (saveToFile e s) = currentIndex s \<and>
      fileData (saveToFile e s) = fileData s" if "\<not> disk_ok e"
    using that by (simp add: saveToFile_failed_write)
  have 4: "saveToFile e s = s" if "cachedData s = None \<and> fileData s = None"
    using that by (simp add: saveToFile_def)
  have 5: "\<exists>s1. refreshToken e i s = Inr s1 \<and>
         tokens s1 = (tokens s)[i := (tokens s ! i)
            \<lparr>access_token := Some tok, timestamp := Some (now e), expires_in := Some ttl\<rparr>] \<and>
         currentIndex s1 = currentIndex s \<and> fileData s1 = fileData s"
    if "\<not> disk_ok e \<and> oauth e (refresh_token (tokens s ! i)) = Granted tok ttl" for tok ttl
    using that by (simp add: refreshToken_def saveToFile_failed_write)
  have 6: "\<exists>s2. disableToken e i s = Inr s2 \<and>
         tokens s2 =
           filter (\<lambda>t. refresh_token t \<noteq> refresh_token (tokens s ! i))
             ((tokens s)[i := (tokens s ! i)\<lparr>enable := Some False\<rparr>]) \<and>
         currentIndex s2 = currentIndex s mod max (length (tokens s2)) 1 \<and>
         fileData s2 = fileData s"
    if h: "\<not> disk_ok e \<and> access_token (tokens s ! i) \<noteq> None"
  proof -
    from h obtain s2 where d: "disableToken e i s = Inr s2"
      using disableToken_returns[of s i e] by blast
    have "fileData s2 = fileData s"
      using d h by (auto simp: disableToken_def Let_def saveToFile_failed_write
          split: option.splits)
    then show ?thesis
      using d disableToken_tokens[OF d] disableToken_cursor[OF d] by blast
  qed
  show ?thesis using 1 2 3 4 5 6 by blast
qed

theorem storage_failures_witness:
  "initialize (world 60000 True (Granted ''new'' 3600)) ((manager accounts_stale 1)\<lparr>fileData := None\<rparr>)
     = (manager accounts_stale 1)\<lparr>fileData := None, tokens := []\<rparr> \<and>
   fileData (saveToFile (world 1000 False (Granted ''new'' 3600)) (manager accounts_stale 1)) =
     Some accounts_stale \<and>
   (\<exists>s1. refreshToken (world 1000 False (Granted ''new'' 3600)) 0 (manager accounts_stale 1) = Inr s1 \<and>
      map access_token (tokens s1) = [Some ''new'', Some ''aB'', Some ''aC''] \<and>
      fileData s1 = Some accounts_stale) \<and>
   (\<exists>s2. disableToken (world 1000 False (Granted ''new'' 3600)) 0
            (manager accounts_stale 1) = Inr s2 \<and>
      map refresh_token (tokens s2) = [''rB'', ''rC''] \<and> currentIndex s2 = 1 \<and>
      fileData s2 = Some accounts_stale)"
proof -
  let ?e = "world 1000 False (Granted ''new'' 3600)" and ?s = "manager accounts_stale 1"
  let ?z = "?s\<lparr>fileData := None\<rparr>"
  have a: "fileData ?z = None" by simp
  have b: "\<not> disk_ok ?e" by (simp add: world_def)
  have c: "\<not> disk_ok ?e \<and> oauth ?e (refresh_token (tokens ?s ! 0)) = Granted ''new'' 3600"
    by (simp add: world_def)
  have g: "\<not> disk_ok ?e \<and> access_token (tokens ?s ! 0) \<noteq> None"
    by (simp add: world_def manager_def accounts_stale_def acct_def pooled_def cred.extend_def)
  have f: "fileData ?s = Some accounts_stale" by (simp add: manager_def)
  note th = storage_failures[of ?s ?e 0]
  have "initialize (world 60000 True (Granted ''new'' 3600)) ?z = ?z\<lparr>tokens := []\<rparr>"
    using storage_failures[of ?z "world 60000 True (Granted ''new'' 3600)" 0, THEN conjunct1] a
    by (rule mp)
  moreover have "fileData (saveToFile ?e ?s) = fileData ?s"
    using th[THEN conjunct2, THEN conjunct2, THEN conjunct1, rule_format, OF b] by simp
  moreover have "\<exists>s1. refreshToken ?e 0 ?s = Inr s1 \<and>
         tokens s1 = (tokens ?s)[0 := (tokens ?s ! 0)
            \<lparr>access_token := Some ''new'', timestamp := Some (now ?e), expires_in := Some 3600\<rparr>] \<and>
         currentIndex s1 = currentIndex ?s \<and> fileData s1 = fileData ?s"
    using th[THEN conjunct2, THEN conjunct2, THEN conjunct2, THEN conjunct2, THEN conjunct1,
        rule_format, OF c] .
  then have "\<exists>s1. refreshToken ?e 0 ?s = Inr s1 \<and>
      map access_token (tokens s1) = [Some ''new'', Some ''aB'', Some ''aC''] \<and>
      fileData s1 = Some accounts_stale"
    using f by (auto simp: manager_def accounts_stale_def acct_def pooled_def cred.extend_def)
  moreover have "\<exists>s2. disableToken ?e 0 ?s = Inr s2 \<and>
         tokens s2 =
           filter (\<lambda>t. refresh_token t \<noteq> refresh_token (tokens ?s ! 0))
             ((tokens ?s)[0 := (tokens ?s ! 0)\<lparr>enable := Some False\<rparr>]) \<and>
         currentIndex s2 = currentIndex ?s mod max (length (tokens s2)) 1 \<and>
         fileData s2 = fileData ?s"
    using th[THEN conjunct2, THEN conjunct2, THEN conjunct2, THEN conjunct2, THEN conjunct2,
        rule_format, OF g] .
  then have "\<exists>s2. disableToken ?e 0 ?s = Inr s2 \<and>
      map refresh_token (tokens s2) = [''rB'', ''rC''] \<and> currentIndex s2 = 1 \<and>
      fileData s2 = Some accounts_stale"
    using f by (auto simp: manager_def accounts_stale_def acct_def pooled_def cred.extend_def)
  ultimately show ?thesis using f by simp
qed

text \<open>
  The claim as stated fails on a load: a pool of three valid credentials, the file
  unreadable, a call one minute after the last load. The load empties the pool, and
  \<^verbatim>\<open>getToken\<close> finds no credential. It fails on a disablement too: the write fails, the
  credential leaves the pool all the same.
\<close>

theorem failed_load_counterexample:
  "length (tokens ((manager accounts3 1)\<lparr>fileData := None\<rparr>)) = 3 \<and>
   tokens (loadTokens (world 60000 True (Rejected 403 []))
     ((manager accounts3 1)\<lparr>fileData := None\<rparr>)) = [] \<and>
   fst (getToken (world 60000 True (Rejected 403 []))
     ((manager accounts3 1)\<lparr>fileData := None\<rparr>)) = Inr None \<and>
   map_sum id (\<lambda>s2. map refresh_token (tokens s2))
     (disableToken (world 1000 False (Rejected 403 [])) 0 (manager accounts3 1)) =
     Inr [''rB'', ''rC'']"
  by code_simp

section \<open>Properties of the endpoint\<close>

lemma timer_fires_n:
  assumes "interval res" and "\<not> writableEnded res" and "headersSent res"
  shows "(timer_fires m ^^ n) res = res\<lparr>sent := sent res @ replicate n (heartbeat m)\<rparr>"
proof (induction n)
  case 0
  then show ?case by simp
next
  case (Suc n)
  have "replicate n (heartbeat m) @ [heartbeat m] = heartbeat m # replicate n (heartbeat m)"
    by (rule replicate_append_same)
  then show ?case
    using Suc assms
    by (simp add: timer_fires_def sendEmptyChunk_def res_write_def)
qed

lemma firings_positive: "heartbeat_period < d \<Longrightarrow> 1 \<le> firings_before d"
  by (simp add: firings_before_def heartbeat_period_def)

lemma fake_streaming_sent:
  "sent (fake_streaming u am fresh_response) =
     [Chunk (Some am) RoleDelta None] @
     replicate (firings_before (blocking_ms u)) (heartbeat (Some am)) @
     (case blocking u of
        Reply text toolCalls \<Rightarrow>
          (if toolCalls \<noteq> [] then [Chunk (Some am) (ToolCallsDelta toolCalls) None] else []) @
          (if text \<noteq> [] then [Chunk (Some am) (ContentDelta text) None] else []) @
          [Chunk (Some am) NoDelta (Some (if toolCalls \<noteq> [] then ToolCalls else Stop)),
           Terminator]
      | Failure msg \<Rightarrow>
          [Chunk (Some am) (ContentDelta (ascii ''Error: '' @ msg)) None,
           Chunk (Some am) NoDelta (Some Stop), Terminator])"
proof -
  let ?res3 = "(res_write (Chunk (Some am) RoleDelta None)
                 (flushHeaders (setHeader ''X-Accel-Buffering'' ''no''
                    (sse_headers fresh_response))))\<lparr>interval := True\<rparr>"
  have "(timer_fires (Some am) ^^ firings_before (blocking_ms u)) ?res3 =
      ?res3\<lparr>sent := sent ?res3 @
        replicate (firings_before (blocking_ms u)) (heartbeat (Some am))\<rparr>"
    by (rule timer_fires_n)
      (simp_all add: res_write_def flushHeaders_def setHeader_def sse_headers_def
        fresh_response_def)
  then show ?thesis
    by (simp add: fake_streaming_def Let_def res_write_def res_end_def flushHeaders_def
        setHeader_def sse_headers_def fresh_response_def split: blocking_reply.splits)
qed

lemma fake_streaming_closed:
  "writableEnded (fake_streaming u am fresh_response) \<and>
   \<not> interval (fake_streaming u am fresh_response) \<and>
   headersSent (fake_streaming u am fresh_response) \<and>
   timer_fires m (fake_streaming u am fresh_response) = fake_streaming u am fresh_response"
proof -
  let ?res3 = "(res_write (Chunk (Some am) RoleDelta None)
                 (flushHeaders (setHeader ''X-Accel-Buffering'' ''no''
                    (sse_headers fresh_response))))\<lparr>interval := True\<rparr>"
  have t: "(timer_fires (Some am) ^^ firings_before (blocking_ms u)) ?res3 =
      ?res3\<lparr>sent := sent ?res3 @
        replicate (firings_before (blocking_ms u)) (heartbeat (Some am))\<rparr>"
    by (rule timer_fires_n)
      (simp_all add: res_write_def flushHeaders_def setHeader_def sse_headers_def
        fresh_response_def)
  have "writableEnded (fake_streaming u am fresh_response) \<and>
   \<not> interval (fake_streaming u am fresh_response) \<and>
   headersSent (fake_streaming u am fresh_response)"
    using t
    by (simp add: fake_streaming_def Let_def res_write_def res_end_def flushHeaders_def
        setHeader_def sse_headers_def fresh_response_def split: blocking_reply.splits)
  then show ?thesis by (simp add: timer_fires_def)
qed


lemma fake_prefix_split:
  "startsWith (fake_prefix @ am) fake_prefix"
  "drop (length fake_prefix) (fake_prefix @ am) = am"
  by (simp_all add: startsWith_def)

lemma chat_fake_streaming:
  assumes "messages req = Some msgs"
    and "getToken e s = (Inr (Some token), s1)"
    and "model req = Some m"
    and "startsWith m fake_prefix"
    and "stream_after_check req msgs"
    and "request_error u = None"
  shows "fst (chat_completions e u req s) =
           fake_streaming u (drop (length fake_prefix) m) fresh_response"
  using assms by (simp add: chat_completions_def try_block_def Let_def)

text \<open>
  Claim C6, as the code has it. In fake-streaming mode (the model carries the prefix and
  streaming is on), when the blocking call takes longer than one heartbeat period, what
  the client receives is: the role chunk, one heartbeat for each firing of the interval
  before the call settled (at least one), then, on success, the tool-calls chunk when
  there are tool calls, the content chunk when the content is not empty, the finish chunk
  (\<^verbatim>\<open>tool_calls\<close> with tool calls, else \<^verbatim>\<open>stop\<close>) and the terminator; on failure, an error
  content chunk, the \<^verbatim>\<open>stop\<close> finish chunk and the terminator. The response is ended and
  the interval cleared, so a later firing of the timer writes nothing.
\<close>

theorem fake_stream_sequence:
  assumes "messages req = Some msgs"
    and "getToken e s = (Inr (Some token), s1)"
    and "model req = Some (fake_prefix @ am)"
    and "stream_after_check req msgs"
    and "request_error u = None"
    and "heartbeat_period < blocking_ms u"
  shows "1 \<le> firings_before (blocking_ms u) \<and>
         sent (fst (chat_completions e u req s)) =
           [Chunk (Some am) RoleDelta None] @
           replicate (firings_before (blocking_ms u)) (heartbeat (Some am)) @
           (case blocking u of
              Reply text toolCalls \<Rightarrow>
                (if toolCalls \<noteq> [] then [Chunk (Some am) (ToolCallsDelta toolCalls) None]
                 else []) @
                (if text \<noteq> [] then [Chunk (Some am) (ContentDelta text) None] else []) @
                [Chunk (Some am) NoDelta
                   (Some (if toolCalls \<noteq> [] then ToolCalls else Stop)),
                 Terminator]
            | Failure msg \<Rightarrow>
                [Chunk (Some am) (ContentDelta (ascii ''Error: '' @ msg)) None,
                 Chunk (Some am) NoDelta (Some Stop), Terminator]) \<and>
         writableEnded (fst (chat_completions e u req s)) \<and>
         \<not> interval (fst (chat_completions e u req s)) \<and>
         timer_fires (Some am) (fst (chat_completions e u req s)) =
           fst (chat_completions e u req s)"
proof -
  have r: "fst (chat_completions e u req s) = fake_streaming u am fresh_response"
    using chat_fake_streaming[OF assms(1,2,3) fake_prefix_split(1) assms(4,5)]
    by (simp add: fake_prefix_split)
  show ?thesis
    unfolding r
    using firings_positive[OF assms(6)] fake_streaming_sent[of u am]
      fake_streaming_closed[of u am "Some am"]
    by simp
qed

theorem fake_stream_sequence_witness:
  "heartbeat_period < 7000 \<and>
   sent (fst (chat_completions (world 1000 True (Rejected 403 []))
               (replying (Reply (ascii ''hello'') [ToolCall (ascii ''f'')]) 7000)
               (ask (fake_prefix @ gemini) (ascii ''hi'') (Some True))
               (manager accounts3 0))) =
     [Chunk (Some gemini) RoleDelta None,
      heartbeat (Some gemini), heartbeat (Some gemini),
      Chunk (Some gemini) (ToolCallsDelta [ToolCall (ascii ''f'')]) None,
      Chunk (Some gemini) (ContentDelta (ascii ''hello'')) None,
      Chunk (Some gemini) NoDelta (Some ToolCalls), Terminator]"
proof -
  let ?e = "world 1000 True (Rejected 403 [])"
  let ?u = "replying (Reply (ascii ''hello'') [ToolCall (ascii ''f'')]) 7000"
  let ?req = "ask (fake_prefix @ gemini) (ascii ''hi'') (Some True)"
  let ?s = "manager accounts3 0"
  have 1: "messages ?req = Some [user_says (ascii ''hi'')]" by (simp add: ask_def)
  have "fst (getToken ?e ?s) = Inr (Some (pooled (acct ''rA'' ''aA'' (Some 1))))" by code_simp
  then have 2: "getToken ?e ?s =
      (Inr (Some (pooled (acct ''rA'' ''aA'' (Some 1)))), snd (getToken ?e ?s))"
    by (simp add: prod_eq_iff)
  have 3: "model ?req = Some (fake_prefix @ gemini)" by (simp add: ask_def)
  have 4: "stream_after_check ?req [user_says (ascii ''hi'')]"
    by (simp add: stream_after_check_def default_stream_def ask_def)
  have 5: "request_error ?u = None" by (simp add: replying_def)
  have 6: "heartbeat_period < blocking_ms ?u" by (simp add: replying_def heartbeat_period_def)
  have n: "firings_before (blocking_ms ?u) = 2"
    by (simp add: replying_def firings_before_def heartbeat_period_def)
  have b: "blocking ?u = Reply (ascii ''hello'') [ToolCall (ascii ''f'')]"
    by (simp add: replying_def)
  have h: "ascii ''hello'' \<noteq> []" by (simp add: ascii_def)
  from fake_stream_sequence[OF 1 2 3 4 5 6]
  have "sent (fst (chat_completions ?e ?u ?req ?s)) =
     [Chunk (Some gemini) RoleDelta None] @ replicate 2 (heartbeat (Some gemini)) @
     [Chunk (Some gemini) (ToolCallsDelta [ToolCall (ascii ''f'')]) None,
      Chunk (Some gemini) (ContentDelta (ascii ''hello'')) None,
      Chunk (Some gemini) NoDelta (Some ToolCalls), Terminator]"
    unfolding n b using h by simp
  then show ?thesis
    by (simp add: heartbeat_period_def numeral_2_eq_2)
qed

text \<open>
  The content chunk is not always there: a reply of tool calls with empty content gives
  the role chunk, the heartbeats, the tool-calls chunk, the finish chunk and the
  terminator.
\<close>

theorem fake_stream_no_content_counterexample:
  "sent (fst (chat_completions (world 1000 True (Rejected 403 []))
               (replying (Reply [] [ToolCall (ascii ''f'')]) 7000)
               (ask (fake_prefix @ gemini) (ascii ''hi'') (Some True))
               (manager accounts3 0))) =
     [Chunk (Some gemini) RoleDelta None,
      heartbeat (Some gemini), heartbeat (Some gemini),
      Chunk (Some gemini) (ToolCallsDelta [ToolCall (ascii ''f'')]) None,
      Chunk (Some gemini) NoDelta (Some ToolCalls), Terminator]"
  by code_simp


lemmas res_defs = res_write_def res_end_def res_json_def setHeader_def sse_headers_def
  flushHeaders_def fresh_response_def

text \<open>
  Claim C9, as the code has it. A request of exactly one message whose text is not empty
  and shorter than 20 code units, with no \<^verbatim>\<open>stream\<close> field, with a model name, and for
  which a credential is available, is answered by one JSON body and nothing else: the
  completion with status 200, or the error body with status 500 when building the request
  or the upstream call fails.
\<close>

theorem short_message_not_streamed:
  assumes "messages req = Some [m]"
    and "content m = Text t"
    and "t \<noteq> []"
    and "length t < 20"
    and "stream req = None"
    and "model req = Some md"
    and "getToken e s = (Inr (Some token), s1)"
  shows "headers (fst (chat_completions e u req s)) =
           [(''Content-Type'', ''application/json; charset=utf-8'')] \<and>
         writableEnded (fst (chat_completions e u req s)) \<and>
         sent (fst (chat_completions e u req s)) =
           [Json (case request_error u of
                    Some msg \<Rightarrow> ErrorBody msg
                  | None \<Rightarrow>
                      (case blocking u of
                         Failure msg \<Rightarrow> ErrorBody msg
                       | Reply text toolCalls \<Rightarrow>
                           Completion (Some md) text
                             (if toolCalls \<noteq> [] then Some toolCalls else None)
                             (if toolCalls \<noteq> [] then ToolCalls else Stop)))] \<and>
         status (fst (chat_completions e u req s)) =
           (case request_error u of
              Some msg \<Rightarrow> 500
            | None \<Rightarrow> (case blocking u of Failure msg \<Rightarrow> 500 | Reply text toolCalls \<Rightarrow> 200))"
proof -
  have st: "\<not> stream_after_check req [m]"
    using assms(2,3,4,5) by (simp add: stream_after_check_def short_content_def)
  show ?thesis
    using assms(1,5,6,7) st
    by (simp add: chat_completions_def try_block_def Let_def non_streaming_def
        catch_block_def res_defs split: option.splits blocking_reply.splits)
qed

theorem short_message_not_streamed_witness:
  "sent (fst (chat_completions (world 1000 True (Rejected 403 []))
               (replying (Reply (ascii ''hello'') []) 10)
               (ask gemini (ascii ''hi'') None) (manager accounts3 0))) =
     [Json (Completion (Some gemini) (ascii ''hello'') None Stop)] \<and>
   status (fst (chat_completions (world 1000 True (Rejected 403 []))
               (replying (Reply (ascii ''hello'') []) 10)
               (ask gemini (ascii ''hi'') None) (manager accounts3 0))) = 200"
proof -
  let ?e = "world 1000 True (Rejected 403 [])"
  let ?u = "replying (Reply (ascii ''hello'') []) 10"
  let ?req = "ask gemini (ascii ''hi'') None"
  let ?s = "manager accounts3 0"
  have 1: "messages ?req = Some [user_says (ascii ''hi'')]" by (simp add: ask_def)
  have 2: "content (user_says (ascii ''hi'')) = Text (ascii ''hi'')" by (simp add: user_says_def)
  have 3: "ascii ''hi'' \<noteq> []" by (simp add: ascii_def)
  have 4: "length (ascii ''hi'') < 20" by (simp add: ascii_def)
  have 5: "stream ?req = None" by (simp add: ask_def)
  have 6: "model ?req = Some gemini" by (simp add: ask_def)
  have "fst (getToken ?e ?s) = Inr (Some (pooled (acct ''rA'' ''aA'' (Some 1))))" by code_simp
  then have 7: "getToken ?e ?s =
      (Inr (Some (pooled (acct ''rA'' ''aA'' (Some 1)))), snd (getToken ?e ?s))"
    by (simp add: prod_eq_iff)
  from short_message_not_streamed[OF 1 2 3 4 5 6 7, of ?u]
  show ?thesis by (simp add: replying_def)
qed

text \<open>
  The claim as stated fails on a single message with the empty text (the check wants the
  content to be truthy): the request is streamed. It also fails when no credential is
  available: the error is thrown before the check, while \<^verbatim>\<open>stream\<close> still has its default.
\<close>

theorem short_message_streamed_counterexample:
  "sent (fst (chat_completions (world 1000 True (Rejected 403 []))
               (streaming [ContentFragment (ascii ''hello'')] None)
               (ask gemini [] None) (manager accounts3 0))) =
     [Chunk (Some gemini) (ContentDelta (ascii ''hello'')) None,
      Chunk (Some gemini) NoDelta (Some Stop), Terminator] \<and>
   headers (fst (chat_completions (world 1000 True (Rejected 403 []))
               (streaming [ContentFragment (ascii ''hello'')] None)
               (ask gemini [] None) (manager accounts3 0))) =
     [(''Connection'', ''keep-alive''), (''Cache-Control'', ''no-cache''),
      (''Content-Type'', ''text/event-stream'')] \<and>
   sent (fst (chat_completions (world 1000 True (Rejected 403 []))
               (replying (Reply (ascii ''hello'') []) 10)
               (ask gemini (ascii ''hi'') None) (manager [] 0))) =
     [Chunk (Some gemini) (ContentDelta (error_prefix @ no_token_message)) None,
      Chunk (Some gemini) NoDelta (Some Stop), Terminator]"
  by code_simp

text \<open>
  Claim C2, as the code has it. When \<^verbatim>\<open>getToken\<close> yields no credential (the body having
  \<^verbatim>\<open>messages\<close>), the error is thrown before anything is sent and before the upstream is
  called. With \<^verbatim>\<open>stream: false\<close> in the body the client gets status 500 and the error body.
  Otherwise (\<^verbatim>\<open>stream\<close> true or missing) the client gets status 200 and an event stream: an
  error content chunk, the \<^verbatim>\<open>stop\<close> finish chunk and the terminator.
\<close>

theorem no_credential_response:
  assumes "messages req = Some msgs"
    and "fst (getToken e s) = Inr None"
  shows "(stream req = Some False \<longrightarrow>
            status (fst (chat_completions e u req s)) = 500 \<and>
            sent (fst (chat_completions e u req s)) = [Json (ErrorBody no_token_message)] \<and>
            writableEnded (fst (chat_completions e u req s))) \<and>
         (stream req \<noteq> Some False \<longrightarrow>
            status (fst (chat_completions e u req s)) = 200 \<and>
            headers (fst (chat_completions e u req s)) =
              [(''Connection'', ''keep-alive''), (''Cache-Control'', ''no-cache''),
               (''Content-Type'', ''text/event-stream'')] \<and>
            sent (fst (chat_completions e u req s)) =
              [Chunk (model req) (ContentDelta (error_prefix @ no_token_message)) None,
               Chunk (model req) NoDelta (Some Stop), Terminator] \<and>
            writableEnded (fst (chat_completions e u req s)))"
proof -
  obtain s1 where g: "getToken e s = (Inr None, s1)"
    using assms(2) by (cases "getToken e s") auto
  have d: "default_stream req \<longleftrightarrow> stream req \<noteq> Some False"
    by (auto simp: default_stream_def split: option.splits)
  show ?thesis
    using assms(1) g d
    by (simp add: chat_completions_def try_block_def Let_def catch_block_def res_defs)
qed

theorem no_credential_response_witness:
  "status (fst (chat_completions (world 1000 True (Rejected 403 []))
               (replying (Reply (ascii ''hello'') []) 10)
               (ask gemini (ascii ''hi'') (Some False)) (manager [] 0))) = 500 \<and>
   sent (fst (chat_completions (world 1000 True (Rejected 403 []))
               (replying (Reply (ascii ''hello'') []) 10)
               (ask gemini (ascii ''hi'') (Some False)) (manager [] 0))) =
     [Json (ErrorBody no_token_message)]"
proof -
  let ?e = "world 1000 True (Rejected 403 [])"
  let ?u = "replying (Reply (ascii ''hello'') []) 10"
  let ?req = "ask gemini (ascii ''hi'') (Some False)"
  let ?s = "manager [] 0"
  have 1: "messages ?req = Some [user_says (ascii ''hi'')]" by (simp add: ask_def)
  have 2: "fst (getToken ?e ?s) = Inr None" by code_simp
  have 3: "stream ?req = Some False" by (simp add: ask_def)
  from no_credential_response[OF 1 2, of ?u] 3
  show ?thesis by blast
qed

text \<open>
  With \<^verbatim>\<open>stream\<close> missing (or true) the answer to a request that finds no credential is
  not a 5xx: status 200 and stream framing.
\<close>

theorem no_credential_streamed_counterexample:
  "fst (getToken (world 1000 True (Rejected 403 [])) (manager [] 0)) = Inr None \<and>
   status (fst (chat_completions (world 1000 True (Rejected 403 []))
               (replying (Reply (ascii ''hello'') []) 10)
               (ask gemini (ascii ''hi'') None) (manager [] 0))) = 200 \<and>
   headers (fst (chat_completions (world 1000 True (Rejected 403 []))
               (replying (Reply (ascii ''hello'') []) 10)
               (ask gemini (ascii ''hi'') None) (manager [] 0))) =
     [(''Connection'', ''keep-alive''), (''Cache-Control'', ''no-cache''),
      (''Content-Type'', ''text/event-stream'')] \<and>
   sent (fst (chat_completions (world 1000 True (Rejected 403 []))
               (replying (Reply (ascii ''hello'') []) 10)
               (ask gemini (ascii ''hi'') None) (manager [] 0))) =
     [Chunk (Some gemini) (ContentDelta (error_prefix @ no_token_message)) None,
      Chunk (Some gemini) NoDelta (Some Stop), Terminator]"
  by code_simp


text \<open>
  Claim C1, as the code has it by design. A dispatch that fails in fake-streaming mode,
  after the headers were flushed, is rendered as an error content chunk, the \<^verbatim>\<open>stop\<close>
  finish chunk and the terminator, and the response is ended. A dispatch that fails before
  anything was sent is rendered the same way when streaming is on (the image call failing,
  or the streaming call failing before its first fragment): status 200 and an event
  stream, not an error body. With streaming off the client gets status 500 and the error
  body. (What happens when the streaming call fails after its first fragment is not part
  of this statement.)
\<close>

theorem dispatch_failure_response:
  assumes "messages req = Some msgs"
    and "getToken e s = (Inr (Some token), s1)"
    and "model req = Some m"
    and "request_error u = None"
  shows "(startsWith m fake_prefix \<and> stream_after_check req msgs \<and>
          blocking u = Failure msg \<longrightarrow>
            sent (fst (chat_completions e u req s)) =
              [Chunk (Some (drop (length fake_prefix) m)) RoleDelta None] @
              replicate (firings_before (blocking_ms u))
                (heartbeat (Some (drop (length fake_prefix) m))) @
              [Chunk (Some (drop (length fake_prefix) m))
                 (ContentDelta (ascii ''Error: '' @ msg)) None,
               Chunk (Some (drop (length fake_prefix) m)) NoDelta (Some Stop), Terminator] \<and>
            writableEnded (fst (chat_completions e u req s))) \<and>
         (\<not> startsWith m fake_prefix \<and> stream_after_check req msgs \<and>
          (if includes_str m (ascii ''-image'') then blocking u = Failure msg
           else fragments u = [] \<and> stream_failure u = Some msg) \<longrightarrow>
            status (fst (chat_completions e u req s)) = 200 \<and>
            sent (fst (chat_completions e u req s)) =
              [Chunk (Some m) (ContentDelta (error_prefix @ msg)) None,
               Chunk (Some m) NoDelta (Some Stop), Terminator] \<and>
            writableEnded (fst (chat_completions e u req s))) \<and>
         (\<not> stream_after_check req msgs \<and> blocking u = Failure msg \<longrightarrow>
            status (fst (chat_completions e u req s)) = 500 \<and>
            sent (fst (chat_completions e u req s)) = [Json (ErrorBody msg)] \<and>
            writableEnded (fst (chat_completions e u req s)))"
proof -
  have a: "sent (fst (chat_completions e u req s)) =
              [Chunk (Some (drop (length fake_prefix) m)) RoleDelta None] @
              replicate (firings_before (blocking_ms u))
                (heartbeat (Some (drop (length fake_prefix) m))) @
              [Chunk (Some (drop (length fake_prefix) m))
                 (ContentDelta (ascii ''Error: '' @ msg)) None,
               Chunk (Some (drop (length fake_prefix) m)) NoDelta (Some Stop), Terminator] \<and>
            writableEnded (fst (chat_completions e u req s))"
    if "startsWith m fake_prefix \<and> stream_after_check req msgs \<and> blocking u = Failure msg"
  proof -
    have "fst (chat_completions e u req s) =
        fake_streaming u (drop (length fake_prefix) m) fresh_response"
      using chat_fake_streaming[OF assms(1,2,3) _ _ assms(4)] that by blast
    then show ?thesis
      using that fake_streaming_sent[of u "drop (length fake_prefix) m"]
        fake_streaming_closed[of u "drop (length fake_prefix) m" None]
      by simp
  qed
  have b: "status (fst (chat_completions e u req s)) = 200 \<and>
            sent (fst (chat_completions e u req s)) =
              [Chunk (Some m) (ContentDelta (error_prefix @ msg)) None,
               Chunk (Some m) NoDelta (Some Stop), Terminator] \<and>
            writableEnded (fst (chat_completions e u req s))"
    if "\<not> startsWith m fake_prefix \<and> stream_after_check req msgs \<and>
          (if includes_str m (ascii ''-image'') then blocking u = Failure msg
           else fragments u = [] \<and> stream_failure u = Some msg)"
    using that assms
    by (simp add: chat_completions_def try_block_def Let_def real_streaming_def
        catch_block_def res_defs split: if_splits)
  have c: "status (fst (chat_completions e u req s)) = 500 \<and>
            sent (fst (chat_completions e u req s)) = [Json (ErrorBody msg)] \<and>
            writableEnded (fst (chat_completions e u req s))"
    if "\<not> stream_after_check req msgs \<and> blocking u = Failure msg"
    using that assms
    by (simp add: chat_completions_def try_block_def Let_def non_streaming_def
        catch_block_def res_defs)
  show ?thesis using a b c by blast
qed

theorem dispatch_failure_response_witness:
  "sent (fst (chat_completions (world 1000 True (Rejected 403 []))
               (replying (Failure (ascii ''boom'')) 4000)
               (ask (fake_prefix @ gemini) (ascii ''hi'') (Some True)) (manager accounts3 0))) =
     [Chunk (Some gemini) RoleDelta None, heartbeat (Some gemini),
      Chunk (Some gemini) (ContentDelta (ascii ''Error: boom'')) None,
      Chunk (Some gemini) NoDelta (Some Stop), Terminator] \<and>
   sent (fst (chat_completions (world 1000 True (Rejected 403 []))
               (streaming [] (Some (ascii ''boom'')))
               (ask gemini (ascii ''hi'') (Some True)) (manager accounts3 0))) =
     [Chunk (Some gemini) (ContentDelta (error_prefix @ ascii ''boom'')) None,
      Chunk (Some gemini) NoDelta (Some Stop), Terminator] \<and>
   sent (fst (chat_completions (world 1000 True (Rejected 403 []))
               (replying (Failure (ascii ''boom'')) 4000)
               (ask gemini (ascii ''hi'') (Some False)) (manager accounts3 0))) =
     [Json (ErrorBody (ascii ''boom''))]"
proof -
  let ?e = "world 1000 True (Rejected 403 [])"
  let ?s = "manager accounts3 0"
  let ?fake = "ask (fake_prefix @ gemini) (ascii ''hi'') (Some True)"
  let ?real = "ask gemini (ascii ''hi'') (Some True)"
  let ?plain = "ask gemini (ascii ''hi'') (Some False)"
  let ?ub = "replying (Failure (ascii ''boom'')) 4000"
  let ?us = "streaming [] (Some (ascii ''boom''))"
  have "fst (getToken ?e ?s) = Inr (Some (pooled (acct ''rA'' ''aA'' (Some 1))))" by code_simp
  then have g: "getToken ?e ?s =
      (Inr (Some (pooled (acct ''rA'' ''aA'' (Some 1)))), snd (getToken ?e ?s))"
    by (simp add: prod_eq_iff)
  have m: "messages ?fake = Some [user_says (ascii ''hi'')]"
    "messages ?real = Some [user_says (ascii ''hi'')]"
    "messages ?plain = Some [user_says (ascii ''hi'')]"
    "model ?fake = Some (fake_prefix @ gemini)" "model ?real = Some gemini"
    "model ?plain = Some gemini"
    by (simp_all add: ask_def)
  have r: "request_error ?ub = None" "request_error ?us = None"
    by (simp_all add: replying_def streaming_def)
  have h1: "startsWith (fake_prefix @ gemini) fake_prefix \<and>
      stream_after_check ?fake [user_says (ascii ''hi'')] \<and>
      blocking ?ub = Failure (ascii ''boom'')"
    by (simp add: fake_prefix_split stream_after_check_def default_stream_def ask_def
        replying_def)
  have h2: "\<not> startsWith gemini fake_prefix \<and>
      stream_after_check ?real [user_says (ascii ''hi'')] \<and>
      (if includes_str gemini (ascii ''-image'') then blocking ?us = Failure (ascii ''boom'')
       else fragments ?us = [] \<and> stream_failure ?us = Some (ascii ''boom''))"
    by code_simp
  have h3: "\<not> stream_after_check ?plain [user_says (ascii ''hi'')] \<and>
      blocking ?ub = Failure (ascii ''boom'')"
    by (simp add: stream_after_check_def default_stream_def ask_def replying_def)
  have n: "firings_before (blocking_ms ?ub) = 1"
    by (simp add: replying_def firings_before_def heartbeat_period_def)
  have e: "ascii ''Error: '' @ ascii ''boom'' = ascii ''Error: boom''"
    by (simp add: ascii_def)
  from dispatch_failure_response[OF m(1) g m(4) r(1), of "ascii ''boom''"] h1
  have 1: "sent (fst (chat_completions ?e ?ub ?fake ?s)) =
     [Chunk (Some gemini) RoleDelta None, heartbeat (Some gemini),
      Chunk (Some gemini) (ContentDelta (ascii ''Error: boom'')) None,
      Chunk (Some gemini) NoDelta (Some Stop), Terminator]"
    unfolding n by (simp add: fake_prefix_split e)
  from dispatch_failure_response[OF m(2) g m(5) r(2), of "ascii ''boom''"] h2
  have 2: "sent (fst (chat_completions ?e ?us ?real ?s)) =
     [Chunk (Some gemini) (ContentDelta (error_prefix @ ascii ''boom'')) None,
      Chunk (Some gemini) NoDelta (Some Stop), Terminator]"
    by blast
  from dispatch_failure_response[OF m(3) g m(6) r(1), of "ascii ''boom''"] h3
  have 3: "sent (fst (chat_completions ?e ?ub ?plain ?s)) = [Json (ErrorBody (ascii ''boom''))]"
    by blast
  show ?thesis using 1 2 3 by simp
qed

text \<open>
  The claim as stated fails twice. A streaming call that fails after its first fragment:
  the headers are sent, the \<^verbatim>\<open>catch\<close> does nothing, and the response is never ended. A
  streaming call that fails before its first fragment: nothing was sent, and the client
  gets an event stream with the error in a content chunk, not an error body.
\<close>

theorem dispatch_failure_counterexample:
  "headersSent (fst (chat_completions (world 1000 True (Rejected 403 []))
               (streaming [ContentFragment (ascii ''a'')] (Some (ascii ''boom'')))
               (ask gemini (ascii ''hi'') (Some True)) (manager accounts3 0))) \<and>
   sent (fst (chat_completions (world 1000 True (Rejected 403 []))
               (streaming [ContentFragment (ascii ''a'')] (Some (ascii ''boom'')))
               (ask gemini (ascii ''hi'') (Some True)) (manager accounts3 0))) =
     [Chunk (Some gemini) (ContentDelta (ascii ''a'')) None] \<and>
   \<not> writableEnded (fst (chat_completions (world 1000 True (Rejected 403 []))
               (streaming [ContentFragment (ascii ''a'')] (Some (ascii ''boom'')))
               (ask gemini (ascii ''hi'') (Some True)) (manager accounts3 0))) \<and>
   sent (fst (chat_completions (world 1000 True (Rejected 403 []))
               (streaming [] (Some (ascii ''boom'')))
               (ask gemini (ascii ''hi'') (Some True)) (manager accounts3 0))) =
     [Chunk (Some gemini) (ContentDelta (error_prefix @ ascii ''boom'')) None,
      Chunk (Some gemini) NoDelta (Some Stop), Terminator]"
  by code_simp

end
